theory Spec2Isabelle
  imports Complex_Main "HOL-Library.Sublist"
begin

section \<open>JavaScript values\<close>

text \<open>
  The values that flow variables, contact fields and HTTP responses hold. Numbers are
  restricted to integers; \<open>JObj\<close> is a plain object, given by its entries in
  \<open>Object.entries\<close> order.
\<close>

datatype js_value =
    JUndefined
  | JNull
  | JBool bool
  | JNum int
  | JStr string
  | JObj "(string \<times> js_value) list"

text \<open>Truthiness, as \<open>||\<close>, \<open>&&\<close>, \<open>!\<close> and \<open>if\<close> test it.\<close>

fun truthy :: "js_value \<Rightarrow> bool" where
  "truthy JUndefined = False"
| "truthy JNull = False"
| "truthy (JBool b) = b"
| "truthy (JNum n) = (n \<noteq> 0)"
| "truthy (JStr s) = (s \<noteq> [])"
| "truthy (JObj _) = True"

text \<open>The expression \<open>value || ''\<close>.\<close>

definition or_empty :: "js_value \<Rightarrow> js_value" where
  "or_empty v = (if truthy v then v else JStr [])"

definition digit_char :: "nat \<Rightarrow> char" where
  "digit_char n = ''0123456789'' ! n"

fun nat_to_string :: "nat \<Rightarrow> string" where
  "nat_to_string n =
     (if n < 10 then [digit_char n]
      else nat_to_string (n div 10) @ [digit_char (n mod 10)])"

definition int_to_string :: "int \<Rightarrow> string" where
  "int_to_string i =
     (if i < 0 then CHR ''-'' # nat_to_string (nat (- i)) else nat_to_string (nat i))"

text \<open>\<open>String(v)\<close>, the conversion \<open>String.prototype.replace\<close> applies to its second argument.\<close>

fun to_string :: "js_value \<Rightarrow> string" where
  "to_string JUndefined = ''undefined''"
| "to_string JNull = ''null''"
| "to_string (JBool b) = (if b then ''true'' else ''false'')"
| "to_string (JNum n) = int_to_string n"
| "to_string (JStr s) = s"
| "to_string (JObj _) = ''[object Object]''"

section \<open>Template interpolation (whatsapp.service.js)\<close>

text \<open>
  \<open>result.replace(regex, replacement)\<close> for a global regular expression that matches
  the literal text \<open>pat\<close>: the string is scanned from the left, every match is replaced
  and the scan resumes after the match. The token patterns built below are never empty;
  an empty pattern leaves the string as it is.
\<close>

function replaceAll :: "string \<Rightarrow> string \<Rightarrow> string \<Rightarrow> string" where
  "replaceAll pat rep s =
     (if s = [] \<or> pat = [] then s
      else if prefix pat s then rep @ replaceAll pat rep (drop (length pat) s)
      else hd s # replaceAll pat rep (tl s))"
  by pat_completeness auto
termination
  by (relation "measure (\<lambda>(pat, rep, s). length s)") (auto simp: neq_Nil_conv)

declare replaceAll.simps [simp del]

text \<open>The source text of the regular expression: \<open>`{{${key}}}`\<close>.\<close>

definition token :: "string \<Rightarrow> string" where
  "token key = ''{{'' @ key @ ''}}''"

definition is_digit :: "char \<Rightarrow> bool" where
  "is_digit c = (c \<in> set ''0123456789'')"

definition digits_to_nat :: "string \<Rightarrow> nat" where
  "digits_to_nat ds = foldl (\<lambda>n c. 10 * n + (of_char c - 48)) 0 ds"

text \<open>
  The key is pasted into the regular expression unescaped, so what
  \<open>new RegExp(`{{${key}}}`, 'g')\<close> matches depends on the key:
  \<^item> a key without regular-expression syntax (\<open>literal_key\<close>) gives an expression that
    matches the text \<open>{{key}}\<close> and nothing else;
  \<^item> a key made of decimal digits only (\<open>repeat_key\<close>), say \<open>3\<close>, gives \<open>{{3}}\<close>, where
    \<open>{3}\<close> is a quantifier on the first brace: the expression matches three opening
    braces followed by one closing brace, and nothing else;
  \<^item> other keys (a range quantifier \<open>n,\<close> or \<open>n,m\<close>, or one of the characters
    \<open>^ $ \ . * + ? ( ) [ ] { } |\<close>) are not modelled.
\<close>

definition repeat_key :: "string \<Rightarrow> bool" where
  "repeat_key k = (k \<noteq> [] \<and> list_all is_digit k)"

definition quantifier_body :: "string \<Rightarrow> bool" where
  "quantifier_body k =
     (let ds = takeWhile is_digit k; r = dropWhile is_digit k
      in ds \<noteq> [] \<and> (r = [] \<or> (hd r = CHR '','' \<and> list_all is_digit (tl r))))"

definition syntax_free :: "string \<Rightarrow> bool" where
  "syntax_free k = (\<forall>c \<in> set k. c \<notin> set (CHR 0x5C # ''^$.*+?()[]{}|''))"

definition literal_key :: "string \<Rightarrow> bool" where
  "literal_key k = (syntax_free k \<and> \<not> quantifier_body k)"

definition modelled_key :: "string \<Rightarrow> bool" where
  "modelled_key k = (literal_key k \<or> repeat_key k)"

definition key_pattern :: "string \<Rightarrow> string" where
  "key_pattern key =
     (if repeat_key key then replicate (digits_to_nat key) CHR ''{'' @ ''}''
      else token key)"

text \<open>
  A replacement text without \<open>$\<close>, so that \<open>replace\<close> inserts it as it is
  (\<open>$&\<close>, \<open>$1\<close> and the like are replacement patterns, not modelled).
\<close>

definition plain_replacement :: "js_value \<Rightarrow> bool" where
  "plain_replacement v = (CHR ''$'' \<notin> set (to_string (or_empty v)))"

text \<open>
  \<open>interpolateVariables(template, variables)\<close>; \<open>variables\<close> is given by its
  \<open>Object.entries\<close>. The model is the source's for entries whose key satisfies
  \<open>modelled_key\<close> and whose value satisfies \<open>plain_replacement\<close>.
\<close>

fun interpolateVariables :: "string \<Rightarrow> (string \<times> js_value) list \<Rightarrow> string" where
  "interpolateVariables result [] = result"
| "interpolateVariables result ((key, value) # entries) =
     interpolateVariables
       (replaceAll (key_pattern key) (to_string (or_empty value)) result) entries"

section \<open>Numbers and comparisons of JavaScript\<close>

text \<open>
  \<open>Number(v)\<close> on the values above. Strings are ASCII; a numeric string is read exactly
  (the source rounds it to a double).
\<close>

datatype js_number = NaN | Num rat | Infinity bool

definition is_space :: "char \<Rightarrow> bool" where
  "is_space c = (c \<in> set [CHR 0x09, CHR 0x0A, CHR 0x0B, CHR 0x0C, CHR 0x0D, CHR 0x20])"

definition trim :: "string \<Rightarrow> string" where
  "trim s = rev (dropWhile is_space (rev (dropWhile is_space s)))"

definition digit_value :: "char \<Rightarrow> nat" where
  "digit_value c =
     (if c \<in> set ''0123456789'' then of_char c - 48
      else if c \<in> set ''abcdef'' then of_char c - 87
      else of_char c - 55)"

definition digits_value :: "nat \<Rightarrow> string \<Rightarrow> nat" where
  "digits_value base ds = foldl (\<lambda>n c. base * n + digit_value c) 0 ds"

definition based_literal :: "string \<Rightarrow> nat \<Rightarrow> string \<Rightarrow> js_number" where
  "based_literal allowed base ds =
     (if ds \<noteq> [] \<and> list_all (\<lambda>c. c \<in> set allowed) ds
      then Num (of_nat (digits_value base ds)) else NaN)"

definition power10 :: "int \<Rightarrow> rat" where
  "power10 e = (if 0 \<le> e then 10 ^ nat e else 1 / 10 ^ nat (- e))"

text \<open>The exponent part of a decimal literal: empty, or \<open>e\<close>, an optional sign and digits.\<close>

definition exponent_part :: "string \<Rightarrow> int option" where
  "exponent_part r =
     (case r of
        [] \<Rightarrow> Some 0
      | c # r1 \<Rightarrow>
          if c = CHR ''e'' \<or> c = CHR ''E'' then
            (let neg = (case r1 of d # _ \<Rightarrow> d = CHR ''-'' | [] \<Rightarrow> False);
                 ds = (case r1 of d # r2 \<Rightarrow> if d = CHR ''-'' \<or> d = CHR ''+'' then r2 else r1
                       | [] \<Rightarrow> [])
             in if ds \<noteq> [] \<and> list_all is_digit ds
                then Some (if neg then - int (digits_value 10 ds) else int (digits_value 10 ds))
                else None)
          else None)"

text \<open>An unsigned decimal literal: \<open>12\<close>, \<open>12.\<close>, \<open>12.5\<close>, \<open>.5\<close>, each with an optional exponent.\<close>

definition unsigned_decimal :: "string \<Rightarrow> rat option" where
  "unsigned_decimal u =
     (let ip = takeWhile is_digit u;
          r1 = dropWhile is_digit u;
          fp = (case r1 of c # r \<Rightarrow> if c = CHR ''.'' then takeWhile is_digit r else [] | [] \<Rightarrow> []);
          r2 = (case r1 of c # r \<Rightarrow> if c = CHR ''.'' then dropWhile is_digit r else r1 | [] \<Rightarrow> [])
      in if ip = [] \<and> fp = [] then None
         else (case exponent_part r2 of
                 None \<Rightarrow> None
               | Some e \<Rightarrow>
                   Some ((of_nat (digits_value 10 ip) +
                          of_nat (digits_value 10 fp) / 10 ^ length fp) * power10 e)))"

definition string_to_number :: "string \<Rightarrow> js_number" where
  "string_to_number s =
     (let t = trim s
      in if t = [] then Num 0
         else if take 2 t = ''0x'' \<or> take 2 t = ''0X''
           then based_literal ''0123456789abcdefABCDEF'' 16 (drop 2 t)
         else if take 2 t = ''0o'' \<or> take 2 t = ''0O'' then based_literal ''01234567'' 8 (drop 2 t)
         else if take 2 t = ''0b'' \<or> take 2 t = ''0B'' then based_literal ''01'' 2 (drop 2 t)
         else
           (let neg = (hd t = CHR ''-'');
                u = (if hd t = CHR ''-'' \<or> hd t = CHR ''+'' then tl t else t)
            in if u = ''Infinity'' then Infinity (\<not> neg)
               else (case unsigned_decimal u of
                       None \<Rightarrow> NaN
                     | Some r \<Rightarrow> Num (if neg then - r else r))))"

fun to_number :: "js_value \<Rightarrow> js_number" where
  "to_number JUndefined = NaN"
| "to_number JNull = Num 0"
| "to_number (JBool b) = Num (if b then 1 else 0)"
| "to_number (JNum n) = Num (of_int n)"
| "to_number (JStr s) = string_to_number s"
| "to_number (JObj _) = NaN"

definition isNaN :: "js_number \<Rightarrow> bool" where
  "isNaN x = (x = NaN)"

text \<open>The comparison \<open>x < y\<close> of two numbers; \<open>x > y\<close> is \<open>y < x\<close>.\<close>

fun number_less :: "js_number \<Rightarrow> js_number \<Rightarrow> bool" where
  "number_less (Num a) (Num b) = (a < b)"
| "number_less (Num a) (Infinity p) = p"
| "number_less (Infinity p) (Num b) = (\<not> p)"
| "number_less (Infinity p) (Infinity q) = (\<not> p \<and> q)"
| "number_less _ _ = False"

fun number_equal :: "js_number \<Rightarrow> js_number \<Rightarrow> bool" where
  "number_equal (Num a) (Num b) = (a = b)"
| "number_equal (Infinity p) (Infinity q) = (p = q)"
| "number_equal _ _ = False"

text \<open>
  The loose equality \<open>x == y\<close>. Two objects are equal only when they are the same object,
  which a variable and the literal of a node never are.
\<close>

fun loose_equal :: "js_value \<Rightarrow> js_value \<Rightarrow> bool" where
  "loose_equal JUndefined y = (y = JUndefined \<or> y = JNull)"
| "loose_equal JNull y = (y = JUndefined \<or> y = JNull)"
| "loose_equal (JBool a) (JBool b) = (a = b)"
| "loose_equal (JStr a) (JStr b) = (a = b)"
| "loose_equal (JObj a) (JObj b) = False"
| "loose_equal x JUndefined = False"
| "loose_equal x JNull = False"
| "loose_equal (JObj a) (JStr b) = (''[object Object]'' = b)"
| "loose_equal (JStr a) (JObj b) = (a = ''[object Object]'')"
| "loose_equal (JObj a) (JBool b) = False"
| "loose_equal (JBool a) (JObj b) = False"
| "loose_equal x y = number_equal (to_number x) (to_number y)"

definition to_lower :: "string \<Rightarrow> string" where
  "to_lower s =
     map (\<lambda>c. if c \<in> set ''ABCDEFGHIJKLMNOPQRSTUVWXYZ'' then char_of (of_char c + (32 :: nat)) else c) s"

text \<open>\<open>s.includes(t)\<close>.\<close>

definition string_includes :: "string \<Rightarrow> string \<Rightarrow> bool" where
  "string_includes s t = sublist t s"

section \<open>Objects\<close>

text \<open>
  A plain object is the list of its properties in insertion order (keys distinct).
  \<open>Object.entries\<close> and the spread \<open>{...obj}\<close> enumerate array-index keys first, in
  ascending order, and then the other keys in insertion order.
\<close>

definition array_index_key :: "string \<Rightarrow> bool" where
  "array_index_key k =
     (k = ''0'' \<or> (repeat_key k \<and> hd k \<noteq> CHR ''0'' \<and> digits_to_nat k < 4294967295))"

definition object_entries :: "(string \<times> js_value) list \<Rightarrow> (string \<times> js_value) list" where
  "object_entries obj =
     sort_key (\<lambda>(k, v). digits_to_nat k) (filter (\<lambda>(k, v). array_index_key k) obj) @
     filter (\<lambda>(k, v). \<not> array_index_key k) obj"

text \<open>The assignment \<open>obj[k] = v\<close>.\<close>

definition set_property ::
  "string \<Rightarrow> js_value \<Rightarrow> (string \<times> js_value) list \<Rightarrow> (string \<times> js_value) list" where
  "set_property k v obj =
     (if k \<in> fst ` set obj then map (\<lambda>(k', v'). if k' = k then (k', v) else (k', v')) obj
      else obj @ [(k, v)])"

text \<open>The object literal \<open>{ ...base, ...extra }\<close>.\<close>

definition spread ::
  "(string \<times> js_value) list \<Rightarrow> (string \<times> js_value) list \<Rightarrow> (string \<times> js_value) list" where
  "spread base extra = fold (\<lambda>(k, v). set_property k v) (object_entries extra) base"

section \<open>Broadcast campaigns (broadcast.service.js)\<close>

text \<open>
  The tables of the store that the broadcast service reads and writes. Row ids
  (uuids in the store) are numbers; timestamps are milliseconds.
\<close>

record workspace =
  ws_id :: nat
  whatsapp_phone_number_id :: "string option"
  whatsapp_access_token :: "string option"

record contact =
  ct_id :: nat
  ct_workspace_id :: nat
  ct_name :: js_value
  ct_phone :: string
  ct_email :: js_value
  opted_in :: bool
  whatsapp_verified :: bool
  ct_tags :: "string list"
  ct_custom_fields :: "(string \<times> js_value) list"

record filters =
  contact_ids :: "nat list option"
  tags :: "string list option"
  custom_fields :: "(string \<times> js_value) list option"

record campaign =
  bc_id :: nat
  bc_workspace_id :: nat
  bc_status :: string
  scheduled_at :: "int option"
  started_at :: "int option"
  completed_at :: "int option"
  message_content :: string
  target_type :: string
  target_filters :: "filters option"
  rate_limit :: "int option"
  total_recipients :: nat
  sent_count :: nat
  failed_count :: nat

record broadcast_message =
  bm_id :: nat
  bm_campaign_id :: nat
  bm_contact_id :: nat
  bm_contact_phone :: string
  bm_message_content :: string
  bm_status :: string
  bm_error_message :: "string option"

record database =
  workspaces :: "workspace list"
  contacts :: "contact list"
  broadcast_campaigns :: "campaign list"
  broadcast_messages :: "broadcast_message list"

text \<open>The values of \<open>config.broadcast\<close> that the service reads.\<close>

record broadcast_config =
  defaultRateLimit :: int
  failureThreshold :: int

text \<open>What the service does to the outside, in the order it does it.\<close>

datatype event =
    CampaignStatus nat string
  | TotalRecipients nat nat
  | InsertMessages "broadcast_message list"
  | ProcessCampaign nat
  | SendText string string bool
  | RetryDelay nat
  | Sleep rat
  | MessageStatus nat string
  | CampaignStats nat nat nat

text \<open>\<open>.single()\<close>: the row, when the query has exactly one.\<close>

definition single :: "'a list \<Rightarrow> 'a option" where
  "single rows = (case rows of [r] \<Rightarrow> Some r | _ \<Rightarrow> None)"

definition find_campaign :: "nat \<Rightarrow> database \<Rightarrow> campaign option" where
  "find_campaign campaignId d =
     single (filter (\<lambda>c. bc_id c = campaignId) (broadcast_campaigns d))"

definition update_campaign :: "nat \<Rightarrow> (campaign \<Rightarrow> campaign) \<Rightarrow> database \<Rightarrow> database" where
  "update_campaign campaignId f d =
     d\<lparr>broadcast_campaigns :=
         map (\<lambda>c. if bc_id c = campaignId then f c else c) (broadcast_campaigns d)\<rparr>"

text \<open>
  The filters of the query builder on the \<open>contacts\<close> table: \<open>.in('id', ids)\<close>;
  \<open>.overlaps('tags', ts)\<close>, which holds when the two tag arrays share an element; and
  \<open>.contains('custom_fields', {[key]: value})\<close>, which holds when the contact's custom
  fields have that key with that value.
\<close>

definition in_id :: "nat list \<Rightarrow> contact list \<Rightarrow> contact list" where
  "in_id ids query = filter (\<lambda>c. ct_id c \<in> set ids) query"

definition overlaps_tags :: "string list \<Rightarrow> contact list \<Rightarrow> contact list" where
  "overlaps_tags ts query = filter (\<lambda>c. set (ct_tags c) \<inter> set ts \<noteq> {}) query"

definition contains_custom_field :: "string \<times> js_value \<Rightarrow> contact list \<Rightarrow> contact list" where
  "contains_custom_field kv query =
     filter (\<lambda>c. map_of (ct_custom_fields c) (fst kv) = Some (snd kv)) query"

text \<open>\<open>getTargetContacts(campaign)\<close>.\<close>

definition getTargetContacts :: "campaign \<Rightarrow> database \<Rightarrow> contact list" where
  "getTargetContacts campaign d =
     (let query = filter (\<lambda>c. ct_workspace_id c = bc_workspace_id campaign \<and>
                              opted_in c = True \<and> whatsapp_verified c = True) (contacts d);
          query =
            (case (if target_type campaign = ''specific''
                   then Option.bind (target_filters campaign) contact_ids else None) of
               Some ids \<Rightarrow> in_id ids query
             | None \<Rightarrow> query);
          query =
            (if target_type campaign = ''filtered'' then
               (let ftags = Option.bind (target_filters campaign) tags;
                    fcustom = Option.bind (target_filters campaign) custom_fields;
                    query =
                      (case ftags of
                         Some ts \<Rightarrow> if length ts > 0 then overlaps_tags ts query else query
                       | None \<Rightarrow> query)
                in (case fcustom of
                      Some cf \<Rightarrow> fold contains_custom_field (object_entries cf) query
                    | None \<Rightarrow> query))
             else query)
      in query)"

definition interpolateContactVariables :: "string \<Rightarrow> contact \<Rightarrow> string" where
  "interpolateContactVariables template contact =
     (let variables =
            spread [(''name'', or_empty (ct_name contact)),
                    (''phone'', or_empty (JStr (ct_phone contact))),
                    (''email'', or_empty (ct_email contact))]
                   (ct_custom_fields contact)
      in interpolateVariables template (object_entries variables))"

text \<open>The ids that the store gives to inserted rows: fresh ones.\<close>

definition next_message_id :: "database \<Rightarrow> nat" where
  "next_message_id d = fold (\<lambda>m n. max (Suc (bm_id m)) n) (broadcast_messages d) 0"

definition insert_messages :: "broadcast_message list \<Rightarrow> database \<Rightarrow> database" where
  "insert_messages ms d =
     d\<lparr>broadcast_messages :=
         broadcast_messages d @
         map (\<lambda>(i, m). m\<lparr>bm_id := next_message_id d + i\<rparr>) (enumerate 0 ms)\<rparr>"

text \<open>
  \<open>startCampaign(campaignId)\<close> at the time \<open>now\<close>: the events it causes and the store
  afterwards. An exception anywhere in the \<open>try\<close> block ends in the \<open>catch\<close> block, which
  marks the campaign \<open>failed\<close>. The call of \<open>processCampaign\<close> at the end is not awaited:
  it is the event \<open>ProcessCampaign\<close>.
\<close>

definition startCampaign_failed :: "nat \<Rightarrow> int \<Rightarrow> event list \<times> database \<Rightarrow> event list \<times> database" where
  "startCampaign_failed campaignId now r =
     (fst r @ [CampaignStatus campaignId ''failed''],
      update_campaign campaignId
        (\<lambda>c. c\<lparr>bc_status := ''failed'', completed_at := Some now\<rparr>) (snd r))"

definition startCampaign :: "nat \<Rightarrow> int \<Rightarrow> database \<Rightarrow> event list \<times> database" where
  "startCampaign campaignId now d =
     (case find_campaign campaignId d of
        None \<Rightarrow> startCampaign_failed campaignId now ([], d)
      | Some campaign \<Rightarrow>
          if (case scheduled_at campaign of Some t \<Rightarrow> t > now | None \<Rightarrow> False)
          then ([], d)
          else
            (let d1 = update_campaign campaignId
                        (\<lambda>c. c\<lparr>bc_status := ''processing'', started_at := Some now\<rparr>) d;
                 es1 = [CampaignStatus campaignId ''processing''];
                 targets = getTargetContacts campaign d1
             in if length targets = 0
                then startCampaign_failed campaignId now (es1, d1)
                else
                  (let d2 = update_campaign campaignId
                              (\<lambda>c. c\<lparr>total_recipients := length targets\<rparr>) d1;
                       messages =
                         map (\<lambda>contact.
                                \<lparr>bm_id = 0,
                                 bm_campaign_id = campaignId,
                                 bm_contact_id = ct_id contact,
                                 bm_contact_phone = ct_phone contact,
                                 bm_message_content =
                                   interpolateContactVariables (message_content campaign) contact,
                                 bm_status = ''pending'',
                                 bm_error_message = None\<rparr>) targets;
                       d3 = insert_messages messages d2
                   in (es1 @ [TotalRecipients campaignId (length targets),
                              InsertMessages messages,
                              ProcessCampaign campaignId], d3))))"

text \<open>
  \<open>config.broadcast\<close> from the environment: \<open>parseInt(...) || 10\<close> and
  \<open>parseInt(...) || 30\<close>, where \<open>None\<close> stands for a variable that is unset or does not
  parse. The default rate limit is never zero.
\<close>

definition config_broadcast :: "int option \<Rightarrow> int option \<Rightarrow> broadcast_config" where
  "config_broadcast env_rate env_threshold =
     \<lparr>defaultRateLimit = (case env_rate of Some n \<Rightarrow> if n = 0 then 10 else n | None \<Rightarrow> 10),
      failureThreshold = (case env_threshold of Some n \<Rightarrow> if n = 0 then 30 else n | None \<Rightarrow> 30)\<rparr>"

text \<open>
  \<open>WhatsAppService.withRetry(fn, maxRetries)\<close> around \<open>whatsapp.sendText(phone, content)\<close>,
  from the loop counter \<open>i\<close>. The outbound channel is an oracle: \<open>send_ok k\<close> tells whether
  the \<open>k\<close>-th call of \<open>sendText\<close> in this run succeeds. The result says whether a call
  succeeded (otherwise the last error is thrown), how many calls have been made, and the
  events. After a failed call the function waits \<open>2^i\<close> seconds, also after the last one.
\<close>

function withRetry ::
  "(nat \<Rightarrow> bool) \<Rightarrow> string \<Rightarrow> string \<Rightarrow> nat \<Rightarrow> nat \<Rightarrow> nat \<Rightarrow> bool \<times> nat \<times> event list" where
  "withRetry send_ok phone content maxRetries i k =
     (if i < maxRetries then
        (if send_ok k then (True, Suc k, [SendText phone content True])
         else (case withRetry send_ok phone content maxRetries (Suc i) (Suc k) of
                 (ok, k', es) \<Rightarrow>
                   (ok, k', SendText phone content False # RetryDelay (2 ^ i * 1000) # es)))
      else (False, k, []))"
  by pat_completeness auto
termination
  by (relation "measure (\<lambda>(send_ok, phone, content, maxRetries, i, k). maxRetries - i)") auto

declare withRetry.simps [simp del]

text \<open>
  The state of one call of \<open>processCampaign\<close>: the store, the two counters, and the number
  of \<open>sendText\<close> calls made so far.
\<close>

record run =
  store :: database
  sentCount :: nat
  failedCount :: nat
  calls :: nat

definition update_message ::
  "nat \<Rightarrow> (broadcast_message \<Rightarrow> broadcast_message) \<Rightarrow> database \<Rightarrow> database" where
  "update_message messageId f d =
     d\<lparr>broadcast_messages :=
         map (\<lambda>m. if bm_id m = messageId then f m else m) (broadcast_messages d)\<rparr>"

text \<open>
  The \<open>try\<close>/\<open>catch\<close> statement of the loop body: the send with its retries; on success the
  message is marked \<open>sent\<close>, the counter goes up and the loop sleeps \<open>delayMs\<close>; on failure
  the message is marked \<open>failed\<close> and the other counter goes up.
\<close>

definition sendMessage ::
  "(nat \<Rightarrow> bool) \<Rightarrow> rat \<Rightarrow> broadcast_message \<Rightarrow> run \<Rightarrow> run \<times> event list" where
  "sendMessage send_ok delayMs message r =
     (case withRetry send_ok (bm_contact_phone message) (bm_message_content message) 3 0 (calls r) of
        (ok, k, es) \<Rightarrow>
          if ok then
            (r\<lparr>store := update_message (bm_id message) (\<lambda>m. m\<lparr>bm_status := ''sent''\<rparr>) (store r),
               sentCount := Suc (sentCount r), calls := k\<rparr>,
             es @ [MessageStatus (bm_id message) ''sent'', Sleep delayMs])
          else
            (r\<lparr>store := update_message (bm_id message)
                          (\<lambda>m. m\<lparr>bm_status := ''failed'',
                                  bm_error_message := Some ''Failed to send message''\<rparr>) (store r),
               failedCount := Suc (failedCount r), calls := k\<rparr>,
             es @ [MessageStatus (bm_id message) ''failed'']))"

text \<open>The statement "Update campaign stats".\<close>

definition updateStats :: "nat \<Rightarrow> run \<Rightarrow> run \<times> event list" where
  "updateStats campaignId r =
     (r\<lparr>store := update_campaign campaignId
                   (\<lambda>c. c\<lparr>sent_count := sentCount r, failed_count := failedCount r\<rparr>) (store r)\<rparr>,
      [CampaignStats campaignId (sentCount r) (failedCount r)])"

text \<open>
  The statement "Check failure threshold". The source computes the rate in floating
  point; the model computes it exactly. The two comparisons can differ only when the
  exact rate equals the threshold and the product in floating point lands just above it
  (7 failed of 100 at the threshold 7); at the threshold 30 they agree, since
  \<open>0.3 * 100\<close> is \<open>30\<close> in floating point.
\<close>

definition failureRate :: "nat \<Rightarrow> nat \<Rightarrow> rat" where
  "failureRate sent failed = (of_nat failed / of_nat (sent + failed)) * 100"

definition threshold_exceeded :: "broadcast_config \<Rightarrow> nat \<Rightarrow> nat \<Rightarrow> bool" where
  "threshold_exceeded cfg sent failed =
     (failureRate sent failed > of_int (failureThreshold cfg) \<and> sent + failed > 10)"

text \<open>
  The \<open>for\<close> loop over one batch. The first component of the result tells whether the
  threshold check threw.
\<close>

fun processMessages ::
  "broadcast_config \<Rightarrow> (nat \<Rightarrow> bool) \<Rightarrow> nat \<Rightarrow> rat \<Rightarrow> broadcast_message list \<Rightarrow> run \<Rightarrow>
   bool \<times> run \<times> event list" where
  "processMessages cfg send_ok campaignId delayMs [] r = (False, r, [])"
| "processMessages cfg send_ok campaignId delayMs (message # messages) r =
     (case sendMessage send_ok delayMs message r of
        (r1, es1) \<Rightarrow>
          (case updateStats campaignId r1 of
             (r2, es2) \<Rightarrow>
               if threshold_exceeded cfg (sentCount r2) (failedCount r2)
               then (True, r2, es1 @ es2)
               else (case processMessages cfg send_ok campaignId delayMs messages r2 of
                       (thrown, r3, es3) \<Rightarrow> (thrown, r3, es1 @ es2 @ es3))))"

definition pending_messages :: "nat \<Rightarrow> database \<Rightarrow> broadcast_message list" where
  "pending_messages campaignId d =
     filter (\<lambda>m. bm_campaign_id m = campaignId \<and> bm_status m = ''pending'')
       (broadcast_messages d)"

datatype outcome = Completed | Paused | Cancelled | Failed

text \<open>
  Towards the termination of the \<open>while (true)\<close> loop: every message that the \<open>for\<close> loop
  handles stops being pending, and nothing becomes pending.
\<close>

definition pending_count :: "nat \<Rightarrow> run \<Rightarrow> nat" where
  "pending_count campaignId r = length (pending_messages campaignId (store r))"

lemma pending_update_campaign [simp]:
  "pending_messages c (update_campaign i f d) = pending_messages c d"
  by (simp add: pending_messages_def update_campaign_def)

lemma pending_update_message:
  assumes "\<And>m. bm_status (f m) \<noteq> ''pending''"
  shows "pending_messages c (update_message i f d) =
         filter (\<lambda>m. bm_id m \<noteq> i) (pending_messages c d)"
proof -
  have "filter (\<lambda>m. bm_campaign_id m = c \<and> bm_status m = ''pending'')
          (map (\<lambda>m. if bm_id m = i then f m else m) ms) =
        filter (\<lambda>m. bm_id m \<noteq> i) (filter (\<lambda>m. bm_campaign_id m = c \<and> bm_status m = ''pending'') ms)"
    for ms
    by (induction ms) (auto simp: assms)
  then show ?thesis
    by (simp add: pending_messages_def update_message_def)
qed

lemma pending_sendMessage:
  "pending_messages c (store (fst (sendMessage send_ok delayMs m r))) =
   filter (\<lambda>x. bm_id x \<noteq> bm_id m) (pending_messages c (store r))"
  by (auto simp: sendMessage_def pending_update_message split: prod.splits)

lemma pending_updateStats [simp]:
  "pending_messages c (store (fst (updateStats i r))) = pending_messages c (store r)"
  by (simp add: updateStats_def)

lemma pending_processMessages_le:
  "processMessages cfg send_ok i delayMs ms r = (thrown, r', es) \<Longrightarrow>
   pending_count c r' \<le> pending_count c r"
proof (induction ms arbitrary: r thrown r' es)
  case Nil
  then show ?case by simp
next
  case (Cons m ms)
  obtain r1 es1 where s: "sendMessage send_ok delayMs m r = (r1, es1)"
    by (cases "sendMessage send_ok delayMs m r")
  obtain r2 es2 where u: "updateStats i r1 = (r2, es2)"
    by (cases "updateStats i r1")
  have le: "pending_count c r2 \<le> pending_count c r"
    using pending_sendMessage[of c send_ok delayMs m r] pending_updateStats[of c i r1] s u
    by (simp add: pending_count_def)
  show ?case
  proof (cases "threshold_exceeded cfg (sentCount r2) (failedCount r2)")
    case True
    with Cons.prems s u le show ?thesis by simp
  next
    case False
    with Cons.prems s u obtain es3 where "processMessages cfg send_ok i delayMs ms r2 = (thrown, r', es3)"
      by (auto split: prod.splits)
    from Cons.IH[OF this] le show ?thesis by simp
  qed
qed

lemma pending_processMessages_less:
  assumes "processMessages cfg send_ok i delayMs (m # ms) r = (thrown, r', es)"
    and "m \<in> set (pending_messages c (store r))"
  shows "pending_count c r' < pending_count c r"
proof -
  obtain r1 es1 where s: "sendMessage send_ok delayMs m r = (r1, es1)"
    by (cases "sendMessage send_ok delayMs m r")
  obtain r2 es2 where u: "updateStats i r1 = (r2, es2)"
    by (cases "updateStats i r1")
  have "length (filter (\<lambda>x. bm_id x \<noteq> bm_id m) (pending_messages c (store r)))
        < length (pending_messages c (store r))"
    using assms(2) by (simp add: length_filter_less)
  then have lt: "pending_count c r2 < pending_count c r"
    using pending_sendMessage[of c send_ok delayMs m r] pending_updateStats[of c i r1] s u
    by (simp add: pending_count_def)
  show ?thesis
  proof (cases "threshold_exceeded cfg (sentCount r2) (failedCount r2)")
    case True
    with assms(1) s u lt show ?thesis by simp
  next
    case False
    with assms(1) s u obtain es3 where "processMessages cfg send_ok i delayMs ms r2 = (thrown, r', es3)"
      by (auto split: prod.splits)
    from pending_processMessages_le[OF this, of c] lt show ?thesis by simp
  qed
qed

text \<open>
  Between two rounds of the \<open>while (true)\<close> loop another request (\<open>pauseCampaign\<close>,
  \<open>cancelCampaign\<close>, \<open>resumeCampaign\<close>) may have written the campaign's status:
  \<open>command n\<close> is what it wrote before the \<open>n\<close>-th check, if anything.
\<close>

definition after_command :: "(nat \<Rightarrow> string option) \<Rightarrow> nat \<Rightarrow> nat \<Rightarrow> run \<Rightarrow> run" where
  "after_command command campaignId n r =
     (case command n of
        Some s \<Rightarrow>
          r\<lparr>store := update_campaign campaignId (\<lambda>c. c\<lparr>bc_status := s\<rparr>) (store r)\<rparr>
      | None \<Rightarrow> r)"

text \<open>The query for the next batch: up to ten pending messages of the campaign.\<close>

definition next_batch :: "nat \<Rightarrow> database \<Rightarrow> broadcast_message list" where
  "next_batch campaignId d = take 10 (pending_messages campaignId d)"

lemma processLoop_decreases:
  assumes "(thrown, rest) = processMessages cfg send_ok c delayMs ms r0"
    and "(r1, es) = rest"
    and "ms = next_batch c (store r0)"
    and "length ms \<noteq> 0"
    and "r0 = after_command command c n r"
  shows "pending_count c r1 < pending_count c r"
proof -
  from assms(4) obtain m ms' where ms: "ms = m # ms'"
    by (cases ms) auto
  then have "m \<in> set (take 10 (pending_messages c (store r0)))"
    using assms(3) by (metis list.set_intros(1) next_batch_def)
  then have m: "m \<in> set (pending_messages c (store r0))"
    by (rule in_set_takeD)
  have same: "pending_count c r0 = pending_count c r"
    using assms(5) by (simp add: pending_count_def after_command_def split: option.splits)
  from assms(1,2) ms have "processMessages cfg send_ok c delayMs (m # ms') r0 = (thrown, r1, es)"
    by simp
  from pending_processMessages_less[OF this m] same show ?thesis
    by simp
qed

text \<open>The \<open>while (true)\<close> loop, from its \<open>n\<close>-th round.\<close>

function processLoop ::
  "broadcast_config \<Rightarrow> (nat \<Rightarrow> string option) \<Rightarrow> (nat \<Rightarrow> bool) \<Rightarrow> nat \<Rightarrow> rat \<Rightarrow> nat \<Rightarrow> run \<Rightarrow>
   outcome \<times> run \<times> event list" where
  "processLoop cfg command send_ok campaignId delayMs n r =
     (let r0 = after_command command campaignId n r
      in case find_campaign campaignId (store r0) of
           None \<Rightarrow> (Failed, r0, [])
         | Some currentCampaign \<Rightarrow>
             if bc_status currentCampaign = ''paused'' then (Paused, r0, [])
             else if bc_status currentCampaign = ''cancelled'' then (Cancelled, r0, [])
             else
               (let messages = next_batch campaignId (store r0)
                in if length messages = 0 then (Completed, r0, [])
                   else (case processMessages cfg send_ok campaignId delayMs messages r0 of
                           (True, r1, es1) \<Rightarrow> (Failed, r1, es1)
                         | (False, r1, es1) \<Rightarrow>
                             (case processLoop cfg command send_ok campaignId delayMs (Suc n) r1 of
                                (out, r2, es2) \<Rightarrow> (out, r2, es1 @ es2)))))"
  by pat_completeness auto
termination
proof (relation "measure (\<lambda>(cfg, command, send_ok, campaignId, delayMs, n, r). pending_count campaignId r)",
    goal_cases)
  case 1
  then show ?case by simp
next
  case 2
  then show ?case
    using processLoop_decreases by simp
qed

declare processLoop.simps [simp del]

text \<open>\<open>!x\<close> for a nullable string.\<close>

definition falsy_string :: "string option \<Rightarrow> bool" where
  "falsy_string x = (case x of None \<Rightarrow> True | Some s \<Rightarrow> s = [])"

text \<open>\<open>campaign.rate_limit || config.broadcast.defaultRateLimit\<close>.\<close>

definition rateLimit_of :: "broadcast_config \<Rightarrow> campaign \<Rightarrow> int" where
  "rateLimit_of cfg campaign =
     (case rate_limit campaign of
        Some n \<Rightarrow> if n = 0 then defaultRateLimit cfg else n
      | None \<Rightarrow> defaultRateLimit cfg)"

text \<open>The \<open>catch\<close> block of \<open>processCampaign\<close>.\<close>

definition processCampaign_failed ::
  "nat \<Rightarrow> int \<Rightarrow> database \<Rightarrow> event list \<Rightarrow> outcome \<times> database \<times> event list" where
  "processCampaign_failed campaignId now d es =
     (Failed,
      update_campaign campaignId
        (\<lambda>c. c\<lparr>bc_status := ''failed'', completed_at := Some now\<rparr>) d,
      es @ [CampaignStatus campaignId ''failed''])"

text \<open>
  \<open>processCampaign(campaignId)\<close>: how the call ended, the store afterwards and the events.
  A missing campaign or workspace row makes the property access throw; \<open>now\<close> is the
  time at which the call ends.
\<close>

definition processCampaign ::
  "broadcast_config \<Rightarrow> (nat \<Rightarrow> string option) \<Rightarrow> (nat \<Rightarrow> bool) \<Rightarrow> nat \<Rightarrow> int \<Rightarrow> database \<Rightarrow>
   outcome \<times> database \<times> event list" where
  "processCampaign cfg command send_ok campaignId now d =
     (case find_campaign campaignId d of
        None \<Rightarrow> processCampaign_failed campaignId now d []
      | Some campaign \<Rightarrow>
          (case single (filter (\<lambda>w. ws_id w = bc_workspace_id campaign) (workspaces d)) of
             None \<Rightarrow> processCampaign_failed campaignId now d []
           | Some ws \<Rightarrow>
               if falsy_string (whatsapp_phone_number_id ws) \<or>
                  falsy_string (whatsapp_access_token ws)
               then processCampaign_failed campaignId now d []
               else
                 (let rateLimit = rateLimit_of cfg campaign;
                      delayMs = 1000 / of_int rateLimit
                  in case processLoop cfg command send_ok campaignId delayMs 0
                            \<lparr>store = d, sentCount = 0, failedCount = 0, calls = 0\<rparr> of
                       (Completed, r, es) \<Rightarrow>
                         (Completed,
                          update_campaign campaignId
                            (\<lambda>c. c\<lparr>bc_status := ''completed'', completed_at := Some now\<rparr>)
                            (store r),
                          es @ [CampaignStatus campaignId ''completed''])
                     | (Failed, r, es) \<Rightarrow> processCampaign_failed campaignId now (store r) es
                     | (out, r, es) \<Rightarrow> (out, store r, es))))"

text \<open>
  A small store for concrete runs: Ann has opted in and is verified, Bob has not opted
  in; the campaign names both by id.
\<close>

definition example_ann :: contact where
  "example_ann =
     \<lparr>ct_id = 1, ct_workspace_id = 7, ct_name = JStr ''Ann'', ct_phone = ''+33611111111'',
      ct_email = JNull, opted_in = True, whatsapp_verified = True, ct_tags = [''vip''],
      ct_custom_fields = [(''city'', JStr ''Paris'')]\<rparr>"

definition example_bob :: contact where
  "example_bob =
     \<lparr>ct_id = 2, ct_workspace_id = 7, ct_name = JStr ''Bob'', ct_phone = ''+33622222222'',
      ct_email = JNull, opted_in = False, whatsapp_verified = True, ct_tags = [],
      ct_custom_fields = []\<rparr>"

definition example_campaign :: campaign where
  "example_campaign =
     \<lparr>bc_id = 5, bc_workspace_id = 7, bc_status = ''draft'', scheduled_at = None,
      started_at = None, completed_at = None,
      message_content = ''Hi {{name}} from {{city}}'', target_type = ''specific'',
      target_filters = Some \<lparr>contact_ids = Some [1, 2], tags = None, custom_fields = None\<rparr>,
      rate_limit = None, total_recipients = 0, sent_count = 0, failed_count = 0\<rparr>"

definition example_workspace :: workspace where
  "example_workspace =
     \<lparr>ws_id = 7, whatsapp_phone_number_id = Some ''1055'',
      whatsapp_access_token = Some ''token''\<rparr>"

definition example_database :: database where
  "example_database =
     \<lparr>workspaces = [example_workspace], contacts = [example_ann, example_bob],
      broadcast_campaigns = [example_campaign], broadcast_messages = []\<rparr>"

definition example_queue :: database where
  "example_queue =
     example_database\<lparr>broadcast_messages :=
       [\<lparr>bm_id = 0, bm_campaign_id = 5, bm_contact_id = 1, bm_contact_phone = ''+33611111111'',
         bm_message_content = ''Hi Ann'', bm_status = ''pending'', bm_error_message = None\<rparr>,
        \<lparr>bm_id = 1, bm_campaign_id = 5, bm_contact_id = 3, bm_contact_phone = ''+33633333333'',
         bm_message_content = ''Hi Cid'', bm_status = ''pending'', bm_error_message = None\<rparr>]\<rparr>"

definition example_message :: "nat \<Rightarrow> broadcast_message" where
  "example_message i =
     \<lparr>bm_id = i, bm_campaign_id = 5, bm_contact_id = 100 + i,
      bm_contact_phone = ''+336000000'' @ nat_to_string (10 + i),
      bm_message_content = ''Hello'', bm_status = ''pending'', bm_error_message = None\<rparr>"

definition example_backlog :: database where
  "example_backlog = example_database\<lparr>broadcast_messages := map example_message [0..<13]\<rparr>"

section \<open>Properties of event sequences\<close>

text \<open>
  The pauses of the loop as the code has them: a \<open>Sleep\<close> comes directly after a message
  was marked \<open>sent\<close> and lasts \<open>delayMs\<close>, a message marked \<open>sent\<close> is always followed by
  one, and a message marked otherwise is not.
\<close>

fun sleeps_iff_sent :: "rat \<Rightarrow> event list \<Rightarrow> bool" where
  "sleeps_iff_sent delayMs [] = True"
| "sleeps_iff_sent delayMs (e # es) =
     (case e of
        MessageStatus i st \<Rightarrow>
          (case es of
             Sleep x # es' \<Rightarrow> st = ''sent'' \<and> x = delayMs \<and> sleeps_iff_sent delayMs es'
           | _ \<Rightarrow> st \<noteq> ''sent'' \<and> sleeps_iff_sent delayMs es)
      | Sleep x \<Rightarrow> False
      | _ \<Rightarrow> sleeps_iff_sent delayMs es)"

text \<open>The pauses as the specification has them: every marked message is followed by a \<open>Sleep\<close> of \<open>delayMs\<close>.\<close>

fun sleeps_after_every_message :: "rat \<Rightarrow> event list \<Rightarrow> bool" where
  "sleeps_after_every_message delayMs [] = True"
| "sleeps_after_every_message delayMs (e # es) =
     (case e of
        MessageStatus i st \<Rightarrow>
          (case es of
             Sleep x # es' \<Rightarrow> x = delayMs \<and> sleeps_after_every_message delayMs es'
           | _ \<Rightarrow> False)
      | _ \<Rightarrow> sleeps_after_every_message delayMs es)"

definition is_attempt :: "event \<Rightarrow> bool" where
  "is_attempt e = (case e of SendText _ _ _ \<Rightarrow> True | RetryDelay _ \<Rightarrow> True | _ \<Rightarrow> False)"

text \<open>Events of the loop whose counts are over the threshold.\<close>

definition exceeding :: "broadcast_config \<Rightarrow> event \<Rightarrow> bool" where
  "exceeding cfg e = (case e of CampaignStats c s f \<Rightarrow> threshold_exceeded cfg s f | _ \<Rightarrow> False)"

definition is_campaign_status :: "event \<Rightarrow> bool" where
  "is_campaign_status e = (case e of CampaignStatus c s \<Rightarrow> True | _ \<Rightarrow> False)"

section \<open>Flow engine (flowEngine.service.js)\<close>

text \<open>
  A node of the flow graph, with the fields of \<open>node.data\<close> that its executor reads;
  \<open>Other\<close> is a node of a type the engine does not know.
\<close>

datatype node_kind =
    Trigger string "string list option"
  | SendMessage string string "string option" "(string \<times> string) list option"
  | AskQuestion string string "string option"
  | Condition string string js_value "(string option \<times> string option) option"
  | Delay int
  | SetVariable string string
  | HttpRequest string string js_value "string option"
  | AssignToHuman "string option"
  | EndNode
  | Other string

record node =
  node_id :: string
  node_kind :: node_kind

record edge =
  source :: string
  target :: string

record bot =
  flow_nodes :: "node list"
  flow_edges :: "edge list"

definition node_type :: "node \<Rightarrow> string" where
  "node_type n =
     (case node_kind n of
        Trigger _ _ \<Rightarrow> ''trigger''
      | SendMessage _ _ _ _ \<Rightarrow> ''send_message''
      | AskQuestion _ _ _ \<Rightarrow> ''ask_question''
      | Condition _ _ _ _ \<Rightarrow> ''condition''
      | Delay _ \<Rightarrow> ''delay''
      | SetVariable _ _ \<Rightarrow> ''set_variable''
      | HttpRequest _ _ _ _ \<Rightarrow> ''http_request''
      | AssignToHuman _ \<Rightarrow> ''assign_to_human''
      | EndNode \<Rightarrow> ''end''
      | Other t \<Rightarrow> t)"

text \<open>The row of \<open>conversation_contexts\<close> that the engine works on.\<close>

record flow_context =
  current_node_id :: "string option"
  waiting_for :: "string option"
  variables :: "(string \<times> js_value) list"
  flow_history :: "string list"

text \<open>What a run does to the outside, in order.\<close>

datatype flow_event =
    Executing string string
  | WhatsAppText string
  | WhatsAppButtons string "(string \<times> string) list"
  | WhatsAppMedia string "string option" string
  | LogMessage string string string
  | SaveContext flow_context
  | Timeout int
  | ConversationStatus string
  | HttpCall string string
  | Warn string

text \<open>
  The world of one run: the context object, the row last saved, the clock, the events so
  far, and how many calls of the WhatsApp API and of \<open>axios\<close> were made.
\<close>

record engine =
  ctx :: flow_context
  saved :: "flow_context option"
  clock :: int
  journal :: "flow_event list"
  whatsapp_calls :: nat
  http_calls :: nat

text \<open>
  The collaborators are oracles: \<open>send_succeeds k\<close> tells whether the \<open>k\<close>-th call of the
  WhatsApp API succeeds, \<open>http_reply k\<close> is the body of the \<open>k\<close>-th HTTP response or the
  message of its error.
\<close>

record oracles =
  send_succeeds :: "nat \<Rightarrow> bool"
  http_reply :: "nat \<Rightarrow> string + js_value"

datatype flow_error = SendError | TypeError | RangeError

text \<open>A call ends by returning a value or by throwing; the world is kept either way.\<close>

datatype 'a completion = Returned 'a | Threw flow_error

definition emit :: "flow_event \<Rightarrow> engine \<Rightarrow> engine" where
  "emit e s = s\<lparr>journal := journal s @ [e]\<rparr>"

text \<open>A call of the WhatsApp API (\<open>sendText\<close>, \<open>sendButtons\<close>, \<open>sendMedia\<close>): it throws when the send fails.\<close>

definition whatsapp_send :: "oracles \<Rightarrow> flow_event \<Rightarrow> engine \<Rightarrow> engine \<times> unit completion" where
  "whatsapp_send orc e s =
     (if send_succeeds orc (whatsapp_calls s)
      then (emit e (s\<lparr>whatsapp_calls := Suc (whatsapp_calls s)\<rparr>), Returned ())
      else (s\<lparr>whatsapp_calls := Suc (whatsapp_calls s)\<rparr>, Threw SendError))"

definition logMessage :: "string \<Rightarrow> string \<Rightarrow> string \<Rightarrow> engine \<Rightarrow> engine" where
  "logMessage direction content msg_type s = emit (LogMessage direction content msg_type) s"

definition saveContext :: "engine \<Rightarrow> engine" where
  "saveContext s = emit (SaveContext (ctx s)) (s\<lparr>saved := Some (ctx s)\<rparr>)"

definition findNodeById :: "bot \<Rightarrow> string option \<Rightarrow> node option" where
  "findNodeById b nodeId =
     (case nodeId of
        None \<Rightarrow> None
      | Some i \<Rightarrow> find (\<lambda>n. node_id n = i) (flow_nodes b))"

definition findNextNode :: "bot \<Rightarrow> node \<Rightarrow> node option" where
  "findNextNode b currentNode =
     (case find (\<lambda>e. source e = node_id currentNode) (flow_edges b) of
        Some e \<Rightarrow> findNodeById b (Some (target e))
      | None \<Rightarrow> None)"

text \<open>
  \<open>validateResponse(response, validation)\<close>; \<open>response\<close> is \<open>message.text\<close>, which a message
  that is not a text message does not have, and \<open>validation\<close> is given by its type.
  The two regular expressions are \<open>/^[^\s@]+@[^\s@]+\.[^\s@]+$/\<close> and \<open>/^\+[1-9]\d{1,14}$/\<close>;
  \<open>test\<close> turns a missing response into the string \<open>undefined\<close>.
\<close>

definition matches_email :: "string \<Rightarrow> bool" where
  "matches_email s =
     (let ok = (\<lambda>c. \<not> is_space c \<and> c \<noteq> CHR ''@'');
          local = takeWhile ok s;
          r = dropWhile ok s
      in local \<noteq> [] \<and> r \<noteq> [] \<and> hd r = CHR ''@'' \<and> list_all ok (tl r) \<and>
         CHR ''.'' \<in> set (butlast (tl (tl r))))"

definition matches_phone :: "string \<Rightarrow> bool" where
  "matches_phone s =
     (case s of
        p # d # ds \<Rightarrow>
          p = CHR ''+'' \<and> d \<in> set ''123456789'' \<and> list_all is_digit ds \<and>
          1 \<le> length ds \<and> length ds \<le> 14
      | _ \<Rightarrow> False)"

definition validateResponse :: "string option \<Rightarrow> string option \<Rightarrow> bool" where
  "validateResponse response validation =
     (case validation of
        None \<Rightarrow> True
      | Some t \<Rightarrow>
          if t = ''text'' then (case response of Some r \<Rightarrow> length r > 0 | None \<Rightarrow> False)
          else if t = ''number''
            then \<not> isNaN (to_number (case response of Some r \<Rightarrow> JStr r | None \<Rightarrow> JUndefined))
          else if t = ''email''
            then matches_email (case response of Some r \<Rightarrow> r | None \<Rightarrow> ''undefined'')
          else if t = ''phone''
            then matches_phone (case response of Some r \<Rightarrow> r | None \<Rightarrow> ''undefined'')
          else True)"

definition js_text :: "string option \<Rightarrow> js_value" where
  "js_text t = (case t of Some r \<Rightarrow> JStr r | None \<Rightarrow> JUndefined)"

definition lookup :: "(string \<times> js_value) list \<Rightarrow> string \<Rightarrow> js_value" where
  "lookup obj k = (case map_of obj k of Some v \<Rightarrow> v | None \<Rightarrow> JUndefined)"

definition set_variable :: "string \<Rightarrow> js_value \<Rightarrow> engine \<Rightarrow> engine" where
  "set_variable k v s =
     s\<lparr>ctx := (ctx s)\<lparr>variables := set_property k v (variables (ctx s))\<rparr>\<rparr>"

text \<open>\<open>executeSendMessage(node)\<close>.\<close>

definition executeSendMessage ::
  "oracles \<Rightarrow> string \<Rightarrow> string \<Rightarrow> string option \<Rightarrow> (string \<times> string) list option \<Rightarrow> engine \<Rightarrow>
   engine \<times> bool completion" where
  "executeSendMessage orc message msg_type media_url buttons s =
     (let interpolatedMessage =
            interpolateVariables message (object_entries (variables (ctx s)));
          call =
            (if msg_type = ''text'' \<and> buttons = None then WhatsAppText interpolatedMessage
             else (case buttons of
                     Some bs \<Rightarrow> WhatsAppButtons interpolatedMessage bs
                   | None \<Rightarrow> WhatsAppMedia msg_type media_url interpolatedMessage))
      in case whatsapp_send orc call s of
           (s1, Threw err) \<Rightarrow> (s1, Threw err)
         | (s1, Returned _) \<Rightarrow> (logMessage ''outgoing'' interpolatedMessage msg_type s1, Returned True))"

text \<open>\<open>executeAskQuestion(node)\<close>.\<close>

definition executeAskQuestion :: "oracles \<Rightarrow> string \<Rightarrow> string \<Rightarrow> engine \<Rightarrow> engine \<times> bool completion" where
  "executeAskQuestion orc nodeId question s =
     (let interpolatedQuestion =
            interpolateVariables question (object_entries (variables (ctx s)))
      in case whatsapp_send orc (WhatsAppText interpolatedQuestion) s of
           (s1, Threw err) \<Rightarrow> (s1, Threw err)
         | (s1, Returned _) \<Rightarrow>
             (let s2 = logMessage ''outgoing'' interpolatedQuestion ''text'' s1;
                  s3 = s2\<lparr>ctx := (ctx s2)\<lparr>waiting_for := Some nodeId\<rparr>\<rparr>
              in (saveContext s3, Returned False)))"

text \<open>The \<open>switch\<close> of \<open>executeCondition\<close>.\<close>

definition condition_holds :: "string \<Rightarrow> js_value \<Rightarrow> js_value \<Rightarrow> bool" where
  "condition_holds operator variableValue v =
     (if operator = ''equals'' then loose_equal variableValue v
      else if operator = ''contains''
        then string_includes (to_string (or_empty variableValue)) (to_string v)
      else if operator = ''greater_than'' then number_less (to_number v) (to_number variableValue)
      else if operator = ''less_than'' then number_less (to_number variableValue) (to_number v)
      else if operator = ''is_empty'' then \<not> truthy variableValue
      else False)"

text \<open>\<open>executeCondition(node)\<close>; reading a branch of missing \<open>branches\<close> throws.\<close>

definition executeCondition ::
  "string \<Rightarrow> string \<Rightarrow> js_value \<Rightarrow> (string option \<times> string option) option \<Rightarrow> engine \<Rightarrow>
   engine \<times> bool completion" where
  "executeCondition variable operator v branches s =
     (let variableValue = lookup (variables (ctx s)) variable;
          condition = condition_holds operator variableValue v
      in case branches of
           None \<Rightarrow> (s, Threw TypeError)
         | Some (branch_true, branch_false) \<Rightarrow>
             (let nextNodeId = (if condition then branch_true else branch_false)
              in (s\<lparr>ctx := (ctx s)\<lparr>current_node_id := nextNodeId\<rparr>\<rparr>, Returned True)))"

text \<open>
  \<open>setTimeout(resolve, duration)\<close>, awaited: the clock moves on by the duration, and by
  1 ms when the duration is below 1.
\<close>

definition timeout :: "int \<Rightarrow> engine \<Rightarrow> engine" where
  "timeout duration s =
     emit (Timeout duration) (s\<lparr>clock := clock s + (if duration < 1 then 1 else duration)\<rparr>)"

text \<open>
  \<open>executeDelay(node)\<close>. \<open>new Date(t).toISOString()\<close> throws a \<open>RangeError\<close> when \<open>t\<close> is
  beyond 8,640,000,000,000,000 ms; the resume time is kept as the number \<open>t\<close>.
\<close>

definition executeDelay :: "int \<Rightarrow> engine \<Rightarrow> engine \<times> bool completion" where
  "executeDelay duration s =
     (if duration \<le> 30000 then (timeout duration s, Returned True)
      else
        (let t = clock s + duration
         in if \<bar>t\<bar> > 8640000000000000 then (s, Threw RangeError)
            else (saveContext (set_variable ''resume_at'' (JNum t) s), Returned False)))"

text \<open>\<open>executeSetVariable(node)\<close>.\<close>

definition executeSetVariable :: "string \<Rightarrow> string \<Rightarrow> engine \<Rightarrow> engine \<times> bool completion" where
  "executeSetVariable variable_name v s =
     (set_variable variable_name
        (JStr (interpolateVariables v (object_entries (variables (ctx s))))) s,
      Returned True)"

text \<open>
  \<open>executeHttpRequest(node)\<close>: the \<open>catch\<close> block stores the error also when
  \<open>save_response_to\<close> is missing, under the key \<open>undefined\<close>.
\<close>

definition executeHttpRequest ::
  "oracles \<Rightarrow> string \<Rightarrow> string \<Rightarrow> string option \<Rightarrow> engine \<Rightarrow> engine \<times> bool completion" where
  "executeHttpRequest orc http_method url save_response_to s =
     (let s1 = emit (HttpCall http_method url) (s\<lparr>http_calls := Suc (http_calls s)\<rparr>)
      in case http_reply orc (http_calls s) of
           Inr body \<Rightarrow>
             (if falsy_string save_response_to then (s1, Returned True)
              else (set_variable (the save_response_to) body s1, Returned True))
         | Inl err \<Rightarrow>
             (set_variable (case save_response_to of Some k \<Rightarrow> k | None \<Rightarrow> ''undefined'')
                (JObj [(''error'', JStr err)]) s1,
              Returned True))"

text \<open>\<open>executeAssignToHuman(node)\<close>.\<close>

definition executeAssignToHuman :: "oracles \<Rightarrow> string option \<Rightarrow> engine \<Rightarrow> engine \<times> bool completion" where
  "executeAssignToHuman orc message s =
     (let sent =
            (if falsy_string message then (s, Returned ())
             else (case whatsapp_send orc (WhatsAppText (the message)) s of
                     (s1, Threw err) \<Rightarrow> (s1, Threw err)
                   | (s1, Returned _) \<Rightarrow>
                       (logMessage ''outgoing'' (the message) ''text'' s1, Returned ())))
      in case sent of
           (s1, Threw err) \<Rightarrow> (s1, Threw err)
         | (s1, Returned _) \<Rightarrow> (emit (ConversationStatus ''human'') s1, Returned False))"

text \<open>\<open>executeNode(bot, node)\<close>: the log line, then the \<open>switch\<close> on the node type.\<close>

definition executeNode :: "oracles \<Rightarrow> node \<Rightarrow> engine \<Rightarrow> engine \<times> bool completion" where
  "executeNode orc n s0 =
     (let s = emit (Executing (node_id n) (node_type n)) s0
      in case node_kind n of
           SendMessage message msg_type media_url buttons \<Rightarrow>
             executeSendMessage orc message msg_type media_url buttons s
         | AskQuestion question variable_name validation \<Rightarrow>
             executeAskQuestion orc (node_id n) question s
         | Condition variable operator v branches \<Rightarrow> executeCondition variable operator v branches s
         | Delay duration \<Rightarrow> executeDelay duration s
         | SetVariable variable_name v \<Rightarrow> executeSetVariable variable_name v s
         | HttpRequest http_method url body save_response_to \<Rightarrow>
             executeHttpRequest orc http_method url save_response_to s
         | AssignToHuman message \<Rightarrow> executeAssignToHuman orc message s
         | EndNode \<Rightarrow> (s, Returned False)
         | Trigger trigger_type keywords \<Rightarrow>
             (emit (Warn (''Unknown node type: '' @ node_type n)) s, Returned True)
         | Other t \<Rightarrow> (emit (Warn (''Unknown node type: '' @ node_type n)) s, Returned True))"

text \<open>
  An inbound message is given by its \<open>text\<close>, which only a text message has;
  \<open>incomingMessage\<close> is \<open>None\<close> when the scheduler resumes a flow.
\<close>

type_synonym incoming = "string option"

text \<open>\<open>findTrigger(bot, message)\<close>: the first trigger node that matches, in the order of the nodes.\<close>

definition trigger_matches :: "string \<Rightarrow> string list option \<Rightarrow> incoming option \<Rightarrow> engine \<Rightarrow> bool" where
  "trigger_matches trigger_type keywords message s =
     (trigger_type = ''any_message'' \<or>
      (trigger_type = ''keyword'' \<and>
       (case keywords of
          None \<Rightarrow> False
        | Some kws \<Rightarrow>
            (let messageText = (case Option.bind message id of Some t \<Rightarrow> to_lower t | None \<Rightarrow> [])
             in list_ex (\<lambda>kw. string_includes messageText (to_lower kw)) kws))) \<or>
      (trigger_type = ''new_conversation'' \<and> length (flow_history (ctx s)) = 0))"

definition findTrigger :: "bot \<Rightarrow> incoming option \<Rightarrow> engine \<Rightarrow> node option" where
  "findTrigger b message s =
     find (\<lambda>n. case node_kind n of
                  Trigger trigger_type keywords \<Rightarrow> trigger_matches trigger_type keywords message s
                | _ \<Rightarrow> False)
       (flow_nodes b)"

text \<open>\<open>handleUserResponse(bot, message)\<close>.\<close>

definition handleUserResponse :: "oracles \<Rightarrow> bot \<Rightarrow> incoming \<Rightarrow> engine \<Rightarrow> engine \<times> unit completion" where
  "handleUserResponse orc b message s =
     (case findNodeById b (waiting_for (ctx s)) of
        None \<Rightarrow> (s, Returned ())
      | Some waitingNode \<Rightarrow>
          (case node_kind waitingNode of
             AskQuestion question variable_name validation \<Rightarrow>
               if \<not> validateResponse message validation
               then whatsapp_send orc (WhatsAppText (''Invalid response. '' @ question)) s
               else
                 (let s1 = set_variable variable_name (js_text message) s
                  in (s1\<lparr>ctx := (ctx s1)\<lparr>waiting_for := None\<rparr>\<rparr>, Returned ()))
           | _ \<Rightarrow> (s, Returned ())))"

text \<open>The \<open>while\<close> loop of \<open>executeNodes\<close>, from the current node and the count of iterations.\<close>

definition maxIterations :: nat where
  "maxIterations = 100"

definition advance :: "node \<Rightarrow> engine \<Rightarrow> engine" where
  "advance nextNode s =
     s\<lparr>ctx := (ctx s)\<lparr>current_node_id := Some (node_id nextNode),
                       flow_history := flow_history (ctx s) @ [node_id nextNode]\<rparr>\<rparr>"

function executeNodes_loop ::
  "oracles \<Rightarrow> bot \<Rightarrow> node option \<Rightarrow> nat \<Rightarrow> engine \<Rightarrow> engine \<times> unit completion" where
  "executeNodes_loop orc b currentNode iterations s =
     (case currentNode of
        None \<Rightarrow> (s, Returned ())
      | Some n \<Rightarrow>
          if iterations < maxIterations then
            (case executeNode orc n s of
               (s1, Threw err) \<Rightarrow> (s1, Threw err)
             | (s1, Returned shouldContinue) \<Rightarrow>
                 if \<not> shouldContinue then (s1, Returned ())
                 else
                   (case findNextNode b n of
                      None \<Rightarrow> (s1, Returned ())
                    | Some nextNode \<Rightarrow>
                        executeNodes_loop orc b (Some nextNode) (Suc iterations)
                          (advance nextNode s1)))
          else (s, Returned ()))"
  by pat_completeness auto
termination
  by (relation "measure (\<lambda>(orc, b, currentNode, iterations, s). maxIterations - iterations)") auto

declare executeNodes_loop.simps [simp del]

text \<open>\<open>executeNodes(bot)\<close>: the loop, then the context is saved.\<close>

definition executeNodes :: "oracles \<Rightarrow> bot \<Rightarrow> engine \<Rightarrow> engine \<times> unit completion" where
  "executeNodes orc b s =
     (case executeNodes_loop orc b (findNodeById b (current_node_id (ctx s))) 0 s of
        (s1, Threw err) \<Rightarrow> (s1, Threw err)
      | (s1, Returned _) \<Rightarrow> (saveContext s1, Returned ()))"

definition error_message :: "flow_error \<Rightarrow> string" where
  "error_message err =
     (case err of
        SendError \<Rightarrow> ''Failed to send message''
      | TypeError \<Rightarrow> ''Cannot read properties of undefined''
      | RangeError \<Rightarrow> ''Invalid time value'')"

text \<open>\<open>handleError(error)\<close>; it throws when its own send fails.\<close>

definition handleError :: "oracles \<Rightarrow> flow_error \<Rightarrow> engine \<Rightarrow> engine \<times> unit completion" where
  "handleError orc err s =
     (case whatsapp_send orc
             (WhatsAppText ''Sorry, something went wrong. Please try again later.'') s of
        (s1, Threw err1) \<Rightarrow> (s1, Threw err1)
      | (s1, Returned _) \<Rightarrow>
          (logMessage ''outgoing'' (''Error: '' @ error_message err) ''text'' s1, Returned ()))"

text \<open>The \<open>try\<close> block of \<open>execute\<close>.\<close>

definition execute_body :: "oracles \<Rightarrow> bot \<Rightarrow> incoming option \<Rightarrow> engine \<Rightarrow> engine \<times> unit completion" where
  "execute_body orc b incomingMessage s =
     (let entered =
            (if falsy_string (current_node_id (ctx s)) then
               (case findTrigger b incomingMessage s of
                  None \<Rightarrow> None
                | Some triggerNode \<Rightarrow>
                    Some (s\<lparr>ctx := (ctx s)\<lparr>current_node_id := Some (node_id triggerNode),
                                            flow_history := [node_id triggerNode]\<rparr>\<rparr>))
             else Some s)
      in case entered of
           None \<Rightarrow> (emit (Warn ''No trigger found'') s, Returned ())
         | Some s1 \<Rightarrow>
             (case (if \<not> falsy_string (waiting_for (ctx s1)) \<and> incomingMessage \<noteq> None
                    then handleUserResponse orc b (the incomingMessage) s1
                    else (s1, Returned ())) of
                (s2, Threw err) \<Rightarrow> (s2, Threw err)
              | (s2, Returned _) \<Rightarrow> executeNodes orc b s2))"

text \<open>\<open>execute(bot, incomingMessage)\<close>: one run of the engine.\<close>

definition execute :: "oracles \<Rightarrow> bot \<Rightarrow> incoming option \<Rightarrow> engine \<Rightarrow> engine \<times> unit completion" where
  "execute orc b incomingMessage s =
     (case execute_body orc b incomingMessage s of
        (s1, Threw err) \<Rightarrow> handleError orc err s1
      | (s1, Returned _) \<Rightarrow> (s1, Returned ()))"

text \<open>The world at the start of a run: the context as loaded, nothing done yet.\<close>

definition start_engine :: "flow_context \<Rightarrow> int \<Rightarrow> engine" where
  "start_engine c t =
     \<lparr>ctx = c, saved = Some c, clock = t, journal = [], whatsapp_calls = 0, http_calls = 0\<rparr>"

definition is_executing :: "flow_event \<Rightarrow> bool" where
  "is_executing e = (case e of Executing _ _ \<Rightarrow> True | _ \<Rightarrow> False)"

text \<open>The number of node executions of a run.\<close>

definition node_executions :: "engine \<Rightarrow> nat" where
  "node_executions s = length (filter is_executing (journal s))"

text \<open>A flow that greets, asks for a name and thanks; and a flow with two delays in a row.\<close>

definition example_bot :: bot where
  "example_bot =
     \<lparr>flow_nodes =
        [\<lparr>node_id = ''t'', node_kind = Trigger ''any_message'' None\<rparr>,
         \<lparr>node_id = ''q'', node_kind = AskQuestion ''What is your name?'' ''name'' (Some ''text'')\<rparr>,
         \<lparr>node_id = ''m'', node_kind = SendMessage ''Thanks {{name}}'' ''text'' None None\<rparr>,
         \<lparr>node_id = ''e'', node_kind = EndNode\<rparr>],
      flow_edges =
        [\<lparr>source = ''t'', target = ''q''\<rparr>, \<lparr>source = ''q'', target = ''m''\<rparr>,
         \<lparr>source = ''m'', target = ''e''\<rparr>]\<rparr>"

definition example_waiting :: flow_context where
  "example_waiting =
     \<lparr>current_node_id = Some ''q'', waiting_for = Some ''q'', variables = [],
      flow_history = [''t'', ''q'']\<rparr>"

definition example_delays :: bot where
  "example_delays =
     \<lparr>flow_nodes =
        [\<lparr>node_id = ''d1'', node_kind = Delay 1000\<rparr>,
         \<lparr>node_id = ''d2'', node_kind = Delay 40000\<rparr>,
         \<lparr>node_id = ''e'', node_kind = EndNode\<rparr>],
      flow_edges =
        [\<lparr>source = ''d1'', target = ''d2''\<rparr>, \<lparr>source = ''d2'', target = ''e''\<rparr>]\<rparr>"

definition example_loop :: bot where
  "example_loop =
     \<lparr>flow_nodes =
        [\<lparr>node_id = ''a'', node_kind = SetVariable ''x'' ''1''\<rparr>,
         \<lparr>node_id = ''b'', node_kind = SetVariable ''y'' ''2''\<rparr>],
      flow_edges =
        [\<lparr>source = ''a'', target = ''b''\<rparr>, \<lparr>source = ''b'', target = ''a''\<rparr>]\<rparr>"

definition all_sent :: oracles where
  "all_sent = \<lparr>send_succeeds = (\<lambda>k. True), http_reply = (\<lambda>k. Inr JNull)\<rparr>"

section \<open>Dead letter queue (dlq.service.js)\<close>





















text \<open>A key without braces.\<close>

definition brace_free :: "string \<Rightarrow> bool" where
  "brace_free k = (CHR ''{'' \<notin> set k \<and> CHR ''}'' \<notin> set k)"

text \<open>The rows that a call of \<open>startCampaign\<close> adds to \<open>broadcast_messages\<close>.\<close>

definition created_messages :: "nat \<Rightarrow> int \<Rightarrow> database \<Rightarrow> broadcast_message list" where
  "created_messages campaignId now d =
     drop (length (broadcast_messages d))
       (broadcast_messages (snd (startCampaign campaignId now d)))"

text \<open>The contexts the example runs start from.\<close>

definition example_cycle_start :: flow_context where
  "example_cycle_start =
     \<lparr>current_node_id = Some ''a'', waiting_for = None, variables = [], flow_history = [''a'']\<rparr>"

definition example_at_delay :: flow_context where
  "example_at_delay =
     \<lparr>current_node_id = Some ''d1'', waiting_for = None, variables = [], flow_history = [''d1'']\<rparr>"


section \<open>Properties of the interpolation\<close>

lemma literal_key_brace_free: "literal_key k \<Longrightarrow> brace_free k"
  by (auto simp: literal_key_def syntax_free_def brace_free_def)

lemma literal_key_pattern: "literal_key k \<Longrightarrow> key_pattern k = token k"
proof -
  assume l: "literal_key k"
  have "\<not> repeat_key k"
  proof
    assume r: "repeat_key k"
    then have tw: "takeWhile is_digit k = k" and dw: "dropWhile is_digit k = []"
      and ne: "k \<noteq> []"
      by (auto simp: repeat_key_def list_all_iff)
    have "quantifier_body k"
      by (simp add: quantifier_body_def tw dw ne)
    with l show False by (simp add: literal_key_def)
  qed
  then show ?thesis by (simp add: key_pattern_def)
qed

lemma replaceAll_Nil [simp]: "replaceAll pat rep [] = []"
  by (simp add: replaceAll.simps)

lemma replaceAll_match:
  "pat \<noteq> [] \<Longrightarrow> prefix pat s \<Longrightarrow>
   replaceAll pat rep s = rep @ replaceAll pat rep (drop (length pat) s)"
  by (subst replaceAll.simps) auto

lemma replaceAll_skip:
  "\<not> prefix pat (c # s) \<Longrightarrow> replaceAll pat rep (c # s) = c # replaceAll pat rep s"
  by (subst replaceAll.simps) auto

lemma token_not_Nil [simp]: "token k \<noteq> []"
  by (simp add: token_def)

text \<open>Two tokens of brace-free keys that start at the same place are the same token.\<close>

lemma token_body_eq:
  assumes "brace_free k" "brace_free m" "prefix (k @ ''}}'') (m @ ''}}'' @ x)"
  shows "k = m"
  using assms
proof (induction k arbitrary: m)
  case Nil
  then show ?case by (cases m) (auto simp: brace_free_def)
next
  case (Cons c k)
  then show ?case by (cases m) (auto simp: brace_free_def)
qed

text \<open>No match of \<open>{{k}}\<close> starts inside the text of another token \<open>{{m}}\<close>.\<close>

lemma no_match_inside:
  assumes "brace_free k" "brace_free m" "k \<noteq> m" "token m = u @ w" "w \<noteq> []"
  shows "\<not> prefix (token k) (w @ x)"
proof
  assume p: "prefix (token k) (w @ x)"
  show False
  proof (cases u)
    case Nil
    with assms(4) p have "prefix (k @ ''}}'') (m @ ''}}'' @ x)"
      by (auto simp: token_def)
    with assms show False using token_body_eq by blast
  next
    case (Cons a u')
    note u = Cons
    show False
    proof (cases u')
      case Nil
      with u assms(4) have w: "w = CHR ''{'' # m @ ''}}''"
        by (auto simp: token_def)
      with p assms(2) show False
        by (cases m) (auto simp: token_def brace_free_def)
    next
      case (Cons b u'')
      with u assms(4) have "u'' @ w = m @ ''}}''"
        by (simp add: token_def)
      then have "set w \<subseteq> set (m @ ''}}'')"
        by (metis set_append sup_ge2)
      with assms(2) have "CHR ''{'' \<notin> set w"
        by (auto simp: brace_free_def)
      with p assms(5) show False
        by (cases w) (auto simp: token_def)
    qed
  qed
qed

text \<open>No match of \<open>{{k}}\<close> begins before a token and ends inside it.\<close>

lemma no_straddle:
  assumes "brace_free k" "a \<noteq> []" "prefix (token k) (a @ token m @ b)"
  shows "prefix (token k) a"
proof (rule ccontr)
  assume np: "\<not> prefix (token k) a"
  from assms(3) obtain v where v: "token k = a @ v" "prefix v (token m @ b)" "v \<noteq> []"
    using np by (metis append.right_neutral prefix_append prefixI)
  from v(2,3) have hv: "hd v = CHR ''{''"
    by (cases v) (auto simp: token_def)
  from assms(2) obtain c a' where a: "a = c # a'"
    by (cases a) auto
  show False
  proof (cases a')
    case Nil
    with a v(1) have "v = CHR ''{'' # k @ ''}}''"
      by (auto simp: token_def)
    with v(2) assms(1) show False
      by (cases k) (auto simp: token_def brace_free_def)
  next
    case (Cons d a'')
    with a v(1) have "a'' @ v = k @ ''}}''"
      by (simp add: token_def)
    then have "set v \<subseteq> set (k @ ''}}'')"
      by (metis set_append sup_ge2)
    with assms(1) have "CHR ''{'' \<notin> set v"
      by (auto simp: brace_free_def)
    with hv v(3) show False
      by (cases v) auto
  qed
qed

lemma replaceAll_through_token:
  assumes "brace_free k" "brace_free m" "k \<noteq> m" "token m = u @ w"
  shows "replaceAll (token k) r (w @ b) = w @ replaceAll (token k) r b"
  using assms(4)
proof (induction w arbitrary: u)
  case Nil
  then show ?case by simp
next
  case (Cons c w)
  have "\<not> prefix (token k) ((c # w) @ b)"
    using no_match_inside[OF assms(1-3) Cons.prems] by simp
  then have "replaceAll (token k) r ((c # w) @ b) = c # replaceAll (token k) r (w @ b)"
    by (simp add: replaceAll_skip)
  moreover have "token m = (u @ [c]) @ w"
    using Cons.prems by simp
  ultimately show ?case
    using Cons.IH by simp
qed

lemma replaceAll_keeps_token:
  assumes "brace_free k" "brace_free m" "k \<noteq> m"
  shows "replaceAll (token k) r (a @ token m @ b) =
         replaceAll (token k) r a @ token m @ replaceAll (token k) r b"
proof (induction a rule: length_induct)
  case (1 a)
  show ?case
  proof (cases a)
    case Nil
    then show ?thesis
      using replaceAll_through_token[OF assms, of "[]" "token m"] by simp
  next
    case (Cons c a')
    show ?thesis
    proof (cases "prefix (token k) a")
      case True
      then have le: "length (token k) \<le> length a"
        by (simp add: prefix_length_le)
      have lt: "length (drop (length (token k)) a) < length a"
        using Cons by (simp add: token_def)
      from True have "prefix (token k) (a @ token m @ b)"
        by (simp add: prefix_prefix)
      then have "replaceAll (token k) r (a @ token m @ b) =
                 r @ replaceAll (token k) r (drop (length (token k)) a @ token m @ b)"
        using le by (simp add: replaceAll_match)
      also have "\<dots> = r @ replaceAll (token k) r (drop (length (token k)) a) @
                     token m @ replaceAll (token k) r b"
        using 1 lt by simp
      also have "\<dots> = replaceAll (token k) r a @ token m @ replaceAll (token k) r b"
        using True by (simp add: replaceAll_match)
      finally show ?thesis .
    next
      case False
      then have "\<not> prefix (token k) (a @ token m @ b)"
        using no_straddle[OF assms(1), of a m b] Cons by auto
      then have "replaceAll (token k) r (a @ token m @ b) =
                 c # replaceAll (token k) r (a' @ token m @ b)"
        using Cons by (simp add: replaceAll_skip)
      also have "\<dots> = c # replaceAll (token k) r a' @ token m @ replaceAll (token k) r b"
        using 1 Cons by simp
      also have "\<dots> = replaceAll (token k) r a @ token m @ replaceAll (token k) r b"
        using False Cons by (simp add: replaceAll_skip)
      finally show ?thesis .
    qed
  qed
qed

text \<open>
  Claim C7. The claim says that \<open>interpolate\<close> turns
  \<open>Hello {{name}}, you owe {{amt}}\<close> with \<open>{name: "Sam"}\<close> into \<open>Hello Sam, you owe \<close>,
  and that any token of a missing variable becomes the empty string. The function only
  loops over the entries that the map has, so a token of a missing variable is never
  looked at: it stays in the output. First the claim's own example, where the result
  is not the claimed one.
\<close>

theorem interpolate_missing_variable_counterexample:
  "interpolateVariables ''Hello {{name}}, you owe {{amt}}'' [(''name'', JStr ''Sam'')]
     \<noteq> ''Hello Sam, you owe ''"
  by (simp add: token_def or_empty_def key_pattern_def repeat_key_def is_digit_def
      replaceAll.simps)

text \<open>
  A token of a variable that is not in the map, between two texts, when all keys are
  literal keys and no value to insert contains \<open>$\<close>; and what the key \<open>0\<close>, whose
  expression \<open>{{0}}\<close> matches a closing brace alone, does to such a token.
\<close>

lemma missing_token_kept:
  assumes "\<forall>(k, v) \<in> set vars. literal_key k \<and> plain_replacement v"
    and "literal_key m"
    and "m \<notin> fst ` set vars"
  shows "interpolateVariables (a @ token m @ b) vars =
         interpolateVariables a vars @ token m @ interpolateVariables b vars"
  using assms(1,3)
proof (induction vars arbitrary: a b)
  case Nil
  then show ?case by simp
next
  case (Cons e vars)
  obtain k v where e: "e = (k, v)"
    by (cases e)
  with Cons.prems have k: "literal_key k" "k \<noteq> m"
    by auto
  have rest: "\<forall>(k, v) \<in> set vars. literal_key k \<and> plain_replacement v" "m \<notin> fst ` set vars"
    using Cons.prems by auto
  have "replaceAll (token k) r (a @ token m @ b) =
        replaceAll (token k) r a @ token m @ replaceAll (token k) r b" for r
    using k assms(2) by (simp add: replaceAll_keeps_token literal_key_brace_free)
  then show ?case
    using Cons.IH[OF rest] e k by (simp add: literal_key_pattern)
qed

lemma interpolate_key_0_damages_token:
  "interpolateVariables ''{{amt}}'' [(''0'', JStr ''Z'')] = ''{{amtZZ''"
  by (simp add: token_def or_empty_def key_pattern_def repeat_key_def is_digit_def
      digits_to_nat_def replaceAll.simps)

text \<open>
  Claim C7, as the code has it. The template \<open>Hello {{name}}, you owe {{amt}}\<close> with the
  map \<open>{name: "Sam"}\<close> gives \<open>Hello Sam, you owe {{amt}}\<close>. In general, provided that
  every key of the map, and \<open>m\<close> itself, is a literal key (none of the characters
  \<open>^ $ \ . * + ? ( ) [ ] { } |\<close> and not of the quantifier forms \<open>n\<close>, \<open>n,\<close> or \<open>n,m\<close>
  of digits) and that no value to insert contains \<open>$\<close>: a token \<open>{{m}}\<close> whose variable
  \<open>m\<close> is not a key of the map is left where it is, whatever stands before and after
  it, and the text before and the text after are interpolated on their own.
\<close>

theorem interpolate_missing_variable_kept:
  "interpolateVariables ''Hello {{name}}, you owe {{amt}}'' [(''name'', JStr ''Sam'')]
     = ''Hello Sam, you owe {{amt}}'' \<and>
   ((\<forall>(k, v) \<in> set vars. literal_key k \<and> plain_replacement v) \<and> literal_key m \<and>
    m \<notin> fst ` set vars \<longrightarrow>
      interpolateVariables (a @ token m @ b) vars =
      interpolateVariables a vars @ token m @ interpolateVariables b vars)"
proof -
  have "interpolateVariables ''Hello {{name}}, you owe {{amt}}'' [(''name'', JStr ''Sam'')]
     = ''Hello Sam, you owe {{amt}}''"
    by (simp add: token_def or_empty_def key_pattern_def repeat_key_def is_digit_def
        replaceAll.simps)
  then show ?thesis
    using missing_token_kept [of vars m a b] by blast
qed

text \<open>The missing variable at the start of a template, before a variable of the map.\<close>

theorem interpolate_missing_variable_kept_witness:
  "literal_key ''name'' \<and> plain_replacement (JStr ''Sam'') \<and> literal_key ''amt'' \<and>
   ''amt'' \<notin> fst ` set [(''name'', JStr ''Sam'')] \<and>
   interpolateVariables ''{{amt}} is due, {{name}}'' [(''name'', JStr ''Sam'')] =
     ''{{amt}} is due, Sam''"
proof -
  have vars: "\<forall>(k, v) \<in> set [(''name'', JStr ''Sam'')]. literal_key k \<and> plain_replacement v"
    by (simp add: literal_key_def syntax_free_def quantifier_body_def is_digit_def
        plain_replacement_def or_empty_def)
  have m: "literal_key ''amt''"
    by (simp add: literal_key_def syntax_free_def quantifier_body_def is_digit_def)
  have missing: "''amt'' \<notin> fst ` set [(''name'', JStr ''Sam'')]"
    by simp
  have kept: "interpolateVariables ([] @ token ''amt'' @ '' is due, {{name}}'')
          [(''name'', JStr ''Sam'')] =
        interpolateVariables [] [(''name'', JStr ''Sam'')] @
          token ''amt'' @ interpolateVariables '' is due, {{name}}'' [(''name'', JStr ''Sam'')]"
    using interpolate_missing_variable_kept [of "[(''name'', JStr ''Sam'')]" "''amt''" "[]" "'' is due, {{name}}''"]
      vars m missing by blast
  have before: "interpolateVariables [] [(''name'', JStr ''Sam'')] = []"
    by (simp add: replaceAll.simps)
  have after: "interpolateVariables '' is due, {{name}}'' [(''name'', JStr ''Sam'')] = '' is due, Sam''"
    by (simp add: token_def or_empty_def key_pattern_def repeat_key_def is_digit_def
        replaceAll.simps)
  have whole: "[] @ token ''amt'' @ '' is due, {{name}}'' = ''{{amt}} is due, {{name}}''"
    "[] @ token ''amt'' @ '' is due, Sam'' = ''{{amt}} is due, Sam''"
    by (simp_all add: token_def)
  have "interpolateVariables ''{{amt}} is due, {{name}}'' [(''name'', JStr ''Sam'')] =
     ''{{amt}} is due, Sam''"
    using kept unfolding before after whole .
  then show ?thesis
    using vars m missing by simp
qed

text \<open>
  Claim C10. The claim says that every occurrence of \<open>{{key}}\<close> is replaced, for every
  variables map. The key reaches \<open>new RegExp\<close> unescaped. With the key \<open>1\<close> the
  expression is \<open>{{1}}\<close>, which reads "one opening brace, then a closing brace": it
  matches \<open>{}\<close> and does not match the token \<open>{{1}}\<close>, which stays in the output.
\<close>

theorem interpolate_numeric_key_not_replaced:
  "interpolateVariables ''Item {{1}} of {}'' [(''1'', JStr ''x'')] = ''Item {{1}} of x''"
  by (simp add: token_def or_empty_def key_pattern_def repeat_key_def is_digit_def
      digits_to_nat_def replaceAll.simps)

section \<open>Properties of \<open>startCampaign\<close>\<close>

lemma contacts_update_campaign [simp]: "contacts (update_campaign i f d) = contacts d"
  by (simp add: update_campaign_def)

lemma messages_update_campaign [simp]:
  "broadcast_messages (update_campaign i f d) = broadcast_messages d"
  by (simp add: update_campaign_def)

lemma getTargetContacts_update_campaign [simp]:
  "getTargetContacts campaign (update_campaign i f d) = getTargetContacts campaign d"
  by (simp add: getTargetContacts_def)

lemma filter_map_update:
  assumes "\<And>c. bc_id (f c) = bc_id c"
  shows "filter (\<lambda>c. bc_id c = i) (map (\<lambda>c. if bc_id c = i then f c else c) cs) =
         map f (filter (\<lambda>c. bc_id c = i) cs)"
  by (induction cs) (auto simp: assms)

lemma find_campaign_update:
  assumes "\<And>c. bc_id (f c) = bc_id c"
  shows "find_campaign i (update_campaign i f d) = map_option f (find_campaign i d)"
  by (simp add: find_campaign_def update_campaign_def filter_map_update[OF assms] single_def
      split: list.splits)

lemma set_in_id: "set (in_id ids q) \<subseteq> set q"
  by (auto simp: in_id_def)

lemma set_overlaps_tags: "set (overlaps_tags ts q) \<subseteq> set q"
  by (auto simp: overlaps_tags_def)

lemma set_contains_custom_fields: "set (fold contains_custom_field es q) \<subseteq> set q"
proof (induction es arbitrary: q)
  case Nil
  then show ?case by simp
next
  case (Cons e es)
  have "set (fold contains_custom_field (e # es) q) \<subseteq> set (contains_custom_field e q)"
    using Cons.IH by simp
  also have "\<dots> \<subseteq> set q"
    by (auto simp: contains_custom_field_def)
  finally show ?case .
qed

text \<open>Whatever the target type and the filters: the query starts from the opted-in, verified contacts and only narrows.\<close>

lemma getTargetContacts_subset:
  "set (getTargetContacts campaign d) \<subseteq>
   {c \<in> set (contacts d). opted_in c \<and> whatsapp_verified c}"
proof -
  define base where
    "base = filter (\<lambda>c. ct_workspace_id c = bc_workspace_id campaign \<and>
                        opted_in c = True \<and> whatsapp_verified c = True) (contacts d)"
  define q1 where
    "q1 = (case (if target_type campaign = ''specific''
                 then Option.bind (target_filters campaign) contact_ids else None) of
             Some ids \<Rightarrow> in_id ids base | None \<Rightarrow> base)"
  define q2 where
    "q2 = (case Option.bind (target_filters campaign) tags of
             Some ts \<Rightarrow> if length ts > 0 then overlaps_tags ts q1 else q1 | None \<Rightarrow> q1)"
  define q3 where
    "q3 = (case Option.bind (target_filters campaign) custom_fields of
             Some cf \<Rightarrow> fold contains_custom_field (object_entries cf) q2 | None \<Rightarrow> q2)"
  have res: "getTargetContacts campaign d =
             (if target_type campaign = ''filtered'' then q3 else q1)"
    unfolding getTargetContacts_def Let_def base_def q1_def q2_def q3_def
    by (simp split: option.splits)
  have b: "set base \<subseteq> {c \<in> set (contacts d). opted_in c \<and> whatsapp_verified c}"
    by (auto simp: base_def)
  have s1: "set q1 \<subseteq> set base"
    using set_in_id by (auto simp: q1_def split: option.splits)
  have s2: "set q2 \<subseteq> set q1"
    using set_overlaps_tags by (auto simp: q2_def split: option.splits)
  have s3: "set q3 \<subseteq> set q2"
    using set_contains_custom_fields by (auto simp: q3_def split: option.splits)
  show ?thesis
    using res b s1 s2 s3 by auto
qed

lemma inserted_message_fields:
  assumes "m \<in> set (map (\<lambda>(i, m). m\<lparr>bm_id := n + i\<rparr>) (enumerate 0 ms))"
  shows "\<exists>m0 \<in> set ms. bm_contact_id m = bm_contact_id m0 \<and>
                        bm_contact_phone m = bm_contact_phone m0"
proof -
  from assms obtain i m0 where "(i, m0) \<in> set (enumerate 0 ms)" "m = m0\<lparr>bm_id := n + i\<rparr>"
    by auto
  then have "m0 \<in> set ms" "bm_contact_id m = bm_contact_id m0"
    "bm_contact_phone m = bm_contact_phone m0"
    by (auto simp: in_set_enumerate_eq)
  then show ?thesis by blast
qed

lemma startCampaign_appends:
  "\<exists>new. broadcast_messages (snd (startCampaign campaignId now d)) = broadcast_messages d @ new
     \<and> (\<forall>m \<in> set new. \<exists>c \<in> set (getTargetContacts (the (find_campaign campaignId d)) d).
            ct_id c = bm_contact_id m \<and> ct_phone c = bm_contact_phone m)"
proof (cases "find_campaign campaignId d")
  case None
  then show ?thesis
    by (simp add: startCampaign_def startCampaign_failed_def)
next
  case (Some campaign)
  show ?thesis
  proof (cases "(case scheduled_at campaign of Some t \<Rightarrow> t > now | None \<Rightarrow> False)
                \<or> getTargetContacts campaign d = []")
    case True
    then show ?thesis
      using Some by (auto simp: startCampaign_def startCampaign_failed_def Let_def)
  next
    case False
    define targets where "targets = getTargetContacts campaign d"
    define messages where
      "messages = map (\<lambda>contact.
           \<lparr>bm_id = 0, bm_campaign_id = campaignId, bm_contact_id = ct_id contact,
            bm_contact_phone = ct_phone contact,
            bm_message_content = interpolateContactVariables (message_content campaign) contact,
            bm_status = ''pending'', bm_error_message = None\<rparr>) targets"
    define new where
      "new = map (\<lambda>(i, m). m\<lparr>bm_id := next_message_id d + i\<rparr>) (enumerate 0 messages)"
    have res: "broadcast_messages (snd (startCampaign campaignId now d)) =
               broadcast_messages d @ new"
      using Some False
      by (simp add: startCampaign_def Let_def insert_messages_def new_def messages_def
          targets_def next_message_id_def)
    have "\<exists>c \<in> set targets. ct_id c = bm_contact_id m \<and> ct_phone c = bm_contact_phone m"
      if "m \<in> set new" for m
    proof -
      from that obtain m0 where "m0 \<in> set messages" "bm_contact_id m = bm_contact_id m0"
        "bm_contact_phone m = bm_contact_phone m0"
        unfolding new_def using inserted_message_fields by blast
      then show ?thesis
        by (auto simp: messages_def)
    qed
    then show ?thesis
      using res Some by (auto simp: targets_def)
  qed
qed

text \<open>
  Claim C1. Every message row that \<open>startCampaign\<close> creates is for a contact of the
  store that has opted in and is verified, whatever the campaign and its target type;
  and (contact ids being unique) a contact that has not opted in or is not verified
  gets no message row, also when the campaign's specific list names its id.
\<close>

theorem startCampaign_only_opted_in_verified:
  assumes "distinct (map ct_id (contacts d))"
  shows "(\<forall>m \<in> set (created_messages campaignId now d).
            \<exists>c \<in> set (contacts d). ct_id c = bm_contact_id m \<and> ct_phone c = bm_contact_phone m
                 \<and> opted_in c \<and> whatsapp_verified c)
       \<and> (\<forall>c \<in> set (contacts d). \<not> (opted_in c \<and> whatsapp_verified c) \<longrightarrow>
            (\<forall>m \<in> set (created_messages campaignId now d). bm_contact_id m \<noteq> ct_id c))"
proof -
  obtain new where new: "broadcast_messages (snd (startCampaign campaignId now d)) =
      broadcast_messages d @ new"
    and from_targets: "\<forall>m \<in> set new.
      \<exists>c \<in> set (getTargetContacts (the (find_campaign campaignId d)) d).
        ct_id c = bm_contact_id m \<and> ct_phone c = bm_contact_phone m"
    using startCampaign_appends by blast
  have created: "created_messages campaignId now d = new"
    by (simp add: created_messages_def new)
  have first: "\<exists>c \<in> set (contacts d). ct_id c = bm_contact_id m \<and>
      ct_phone c = bm_contact_phone m \<and> opted_in c \<and> whatsapp_verified c"
    if "m \<in> set new" for m
    using that from_targets getTargetContacts_subset by blast
  have second: "bm_contact_id m \<noteq> ct_id c"
    if "c \<in> set (contacts d)" "\<not> (opted_in c \<and> whatsapp_verified c)" "m \<in> set new" for c m
  proof
    assume eq: "bm_contact_id m = ct_id c"
    from first[OF that(3)] obtain c' where c': "c' \<in> set (contacts d)"
      "ct_id c' = bm_contact_id m" "opted_in c'" "whatsapp_verified c'"
      by blast
    with eq that(1) assms have "c' = c"
      by (metis distinct_map inj_onD)
    with c' that(2) show False by simp
  qed
  show ?thesis
    using first second created by auto
qed

theorem startCampaign_only_opted_in_verified_witness:
  "distinct (map ct_id (contacts example_database))
   \<and> map bm_contact_id (created_messages 5 1000 example_database) = [1]
   \<and> (\<exists>c. c \<in> set (contacts example_database) \<and> ct_id c = 1
            \<and> opted_in c \<and> whatsapp_verified c)
   \<and> 2 \<notin> set (map bm_contact_id (created_messages 5 1000 example_database))"
proof -
  have d: "distinct (map ct_id (contacts example_database))"
    by (simp add: example_database_def example_ann_def example_bob_def)
  have created: "map bm_contact_id (created_messages 5 1000 example_database) = [1]"
    by (simp add: created_messages_def startCampaign_def find_campaign_def single_def
        example_database_def example_campaign_def example_ann_def example_bob_def
        getTargetContacts_def in_id_def update_campaign_def insert_messages_def Let_def)
  have bob: "example_bob \<in> set (contacts example_database)"
    "\<not> (opted_in example_bob \<and> whatsapp_verified example_bob)" "ct_id example_bob = 2"
    by (simp_all add: example_database_def example_bob_def)
  note main = startCampaign_only_opted_in_verified[OF d, of 5 1000]
  from created obtain m where m: "m \<in> set (created_messages 5 1000 example_database)"
    "bm_contact_id m = 1"
    by (auto simp: map_eq_Cons_conv)
  from main m have ann: "\<exists>c. c \<in> set (contacts example_database) \<and> ct_id c = 1
            \<and> opted_in c \<and> whatsapp_verified c"
    by metis
  from main bob have no_bob: "2 \<notin> set (map bm_contact_id (created_messages 5 1000 example_database))"
    by auto
  from d created ann no_bob show ?thesis by blast
qed

text \<open>
  Claim C9. When the campaign exists, is not scheduled for later, and its recipient
  resolution finds no eligible contact: the campaign is first set to \<open>processing\<close> and
  then to \<open>failed\<close>, it ends in status \<open>failed\<close> (not \<open>completed\<close>) with \<open>completed_at\<close>
  set, and no message row is created.
\<close>

theorem startCampaign_no_contacts:
  assumes "find_campaign campaignId d = Some campaign"
    and "\<not> (case scheduled_at campaign of Some t \<Rightarrow> t > now | None \<Rightarrow> False)"
    and "getTargetContacts campaign d = []"
  shows "fst (startCampaign campaignId now d) =
           [CampaignStatus campaignId ''processing'', CampaignStatus campaignId ''failed'']
       \<and> find_campaign campaignId (snd (startCampaign campaignId now d)) =
           Some (campaign\<lparr>bc_status := ''failed'', started_at := Some now,
                          completed_at := Some now\<rparr>)
       \<and> broadcast_messages (snd (startCampaign campaignId now d)) = broadcast_messages d"
  using assms
  by (simp add: startCampaign_def startCampaign_failed_def Let_def find_campaign_update)

theorem startCampaign_no_contacts_witness:
  "fst (startCampaign 5 1000 (example_database\<lparr>contacts := [example_bob]\<rparr>)) =
     [CampaignStatus 5 ''processing'', CampaignStatus 5 ''failed'']
   \<and> map_option bc_status
       (find_campaign 5 (snd (startCampaign 5 1000 (example_database\<lparr>contacts := [example_bob]\<rparr>))))
       = Some ''failed''
   \<and> map_option completed_at
       (find_campaign 5 (snd (startCampaign 5 1000 (example_database\<lparr>contacts := [example_bob]\<rparr>))))
       = Some (Some 1000)
   \<and> broadcast_messages (snd (startCampaign 5 1000 (example_database\<lparr>contacts := [example_bob]\<rparr>))) = []"
proof -
  have a: "find_campaign 5 (example_database\<lparr>contacts := [example_bob]\<rparr>) = Some example_campaign"
    by (simp add: find_campaign_def single_def example_database_def example_campaign_def)
  have b: "\<not> (case scheduled_at example_campaign of Some t \<Rightarrow> t > 1000 | None \<Rightarrow> False)"
    by (simp add: example_campaign_def)
  have c: "getTargetContacts example_campaign (example_database\<lparr>contacts := [example_bob]\<rparr>) = []"
    by (simp add: getTargetContacts_def in_id_def example_campaign_def example_bob_def Let_def)
  show ?thesis
    using startCampaign_no_contacts[OF a b c] by (simp add: example_database_def)
qed

section \<open>Properties of \<open>processCampaign\<close>\<close>

lemma withRetry_events:
  "withRetry send_ok phone content n i k = (ok, k', es) \<Longrightarrow> \<forall>e \<in> set es. is_attempt e"
proof (induction send_ok phone content n i k arbitrary: ok k' es rule: withRetry.induct)
  case (1 send_ok phone content maxRetries i k)
  show ?case
  proof (cases "i < maxRetries")
    case False
    with "1.prems" show ?thesis
      by (simp add: withRetry.simps)
  next
    case True
    note lt = True
    show ?thesis
    proof (cases "send_ok k")
      case True
      with lt "1.prems" show ?thesis
        by (auto simp: withRetry.simps is_attempt_def)
    next
      case False
      obtain ok1 k1 es1 where rec: "withRetry send_ok phone content maxRetries (Suc i) (Suc k) = (ok1, k1, es1)"
        by (cases "withRetry send_ok phone content maxRetries (Suc i) (Suc k)")
      with lt False "1.prems" have "es = SendText phone content False # RetryDelay (2 ^ i * 1000) # es1"
        by (subst (asm) withRetry.simps) simp
      moreover have "\<forall>e \<in> set es1. is_attempt e"
        using "1.IH"[OF lt False rec] .
      ultimately show ?thesis
        by (simp add: is_attempt_def)
    qed
  qed
qed

lemma sleeps_skip_attempts:
  "\<forall>e \<in> set es. is_attempt e \<Longrightarrow> sleeps_iff_sent d (es @ rest) = sleeps_iff_sent d rest"
proof (induction es)
  case Nil
  then show ?case by simp
next
  case (Cons e es)
  then show ?case
    by (cases e) (auto simp: is_attempt_def)
qed

lemma sleeps_sendMessage:
  assumes "sendMessage send_ok d m r = (r1, es1)"
  shows "sleeps_iff_sent d (es1 @ CampaignStats c s f # rest) = sleeps_iff_sent d rest"
proof -
  obtain ok k es where w: "withRetry send_ok (bm_contact_phone m) (bm_message_content m) 3 0 (calls r) = (ok, k, es)"
    by (cases "withRetry send_ok (bm_contact_phone m) (bm_message_content m) 3 0 (calls r)")
  have a: "\<forall>e \<in> set es. is_attempt e"
    using withRetry_events[OF w] .
  show ?thesis
  proof (cases ok)
    case True
    with assms w have "es1 = es @ [MessageStatus (bm_id m) ''sent'', Sleep d]"
      by (simp add: sendMessage_def)
    then show ?thesis
      using sleeps_skip_attempts[OF a] by simp
  next
    case False
    with assms w have "es1 = es @ [MessageStatus (bm_id m) ''failed'']"
      by (simp add: sendMessage_def)
    then show ?thesis
      using sleeps_skip_attempts[OF a] by simp
  qed
qed

lemma sleeps_processMessages:
  "processMessages cfg send_ok c d ms r = (thrown, r', es) \<Longrightarrow>
   sleeps_iff_sent d (es @ rest) = sleeps_iff_sent d rest"
proof (induction ms arbitrary: r thrown r' es rest)
  case Nil
  then show ?case by simp
next
  case (Cons m ms)
  obtain r1 es1 where s: "sendMessage send_ok d m r = (r1, es1)"
    by (cases "sendMessage send_ok d m r")
  obtain r2 es2 where u: "updateStats c r1 = (r2, es2)"
    by (cases "updateStats c r1")
  then have es2: "es2 = [CampaignStats c (sentCount r1) (failedCount r1)]"
    by (auto simp: updateStats_def)
  show ?case
  proof (cases "threshold_exceeded cfg (sentCount r2) (failedCount r2)")
    case True
    with Cons.prems s u have "es = es1 @ es2"
      by simp
    then show ?thesis
      using sleeps_sendMessage[OF s] es2 by simp
  next
    case False
    with Cons.prems s u obtain es3 where p: "processMessages cfg send_ok c d ms r2 = (thrown, r', es3)"
      and es: "es = es1 @ es2 @ es3"
      by (auto split: prod.splits)
    show ?thesis
      using sleeps_sendMessage[OF s] es2 es Cons.IH[OF p] by simp
  qed
qed

lemma processLoop_cases:
  assumes "processLoop cfg command send_ok c d n r = (out, r', es)"
  obtains
    (stop) "es = []" "r' = after_command command c n r"
      "out = Failed \<longrightarrow> find_campaign c (store (after_command command c n r)) = None"
  | (thrown) ms where "ms \<noteq> []"
      "processMessages cfg send_ok c d ms (after_command command c n r) = (True, r', es)"
      "out = Failed"
  | (continue) ms r1 es1 es2 where
      "processMessages cfg send_ok c d ms (after_command command c n r) = (False, r1, es1)"
      "processLoop cfg command send_ok c d (Suc n) r1 = (out, r', es2)"
      "es = es1 @ es2" "pending_count c r1 < pending_count c r"
proof -
  define r0 where "r0 = after_command command c n r"
  define ms where "ms = next_batch c (store r0)"
  have unfold: "processLoop cfg command send_ok c d n r =
     (case find_campaign c (store r0) of
        None \<Rightarrow> (Failed, r0, [])
      | Some cur \<Rightarrow>
          if bc_status cur = ''paused'' then (Paused, r0, [])
          else if bc_status cur = ''cancelled'' then (Cancelled, r0, [])
          else if length ms = 0 then (Completed, r0, [])
          else (case processMessages cfg send_ok c d ms r0 of
                  (True, r1, es1) \<Rightarrow> (Failed, r1, es1)
                | (False, r1, es1) \<Rightarrow>
                    (case processLoop cfg command send_ok c d (Suc n) r1 of
                       (out, r2, es2) \<Rightarrow> (out, r2, es1 @ es2))))"
    by (subst processLoop.simps) (unfold Let_def r0_def ms_def, rule refl)
  show ?thesis
  proof (cases "find_campaign c (store r0)")
    case None
    with assms unfold show ?thesis
      by (intro stop) (auto simp: r0_def)
  next
    case (Some cur)
    show ?thesis
    proof (cases "bc_status cur = ''paused'' \<or> bc_status cur = ''cancelled'' \<or> length ms = 0")
      case True
      with assms unfold Some show ?thesis
        by (intro stop) (auto simp: r0_def split: if_splits)
    next
      case False
      obtain t r1 es1 where p: "processMessages cfg send_ok c d ms r0 = (t, r1, es1)"
        by (cases "processMessages cfg send_ok c d ms r0")
      show ?thesis
      proof (cases t)
        case True
        with assms unfold Some False p have "out = Failed" "r' = r1" "es = es1"
          by auto
        with p True False show ?thesis
          by (intro thrown[of ms]) (auto simp: r0_def)
      next
        case nt: False
        obtain out2 r2 es2 where l: "processLoop cfg command send_ok c d (Suc n) r1 = (out2, r2, es2)"
          by (cases "processLoop cfg command send_ok c d (Suc n) r1")
        with assms unfold Some False p nt have e: "out = out2" "r' = r2" "es = es1 @ es2"
          by auto
        have "pending_count c r1 < pending_count c r"
          using processLoop_decreases[of False "(r1, es1)" cfg send_ok c d ms r0 r1 es1 command n r]
            p nt False
          by (simp add: ms_def r0_def)
        with p l e nt show ?thesis
          by (intro continue[of ms r1 es1 es2]) (auto simp: r0_def)
      qed
    qed
  qed
qed

lemma sleeps_processLoop:
  "processLoop cfg command send_ok c d n r = (out, r', es) \<Longrightarrow>
   sleeps_iff_sent d (es @ rest) = sleeps_iff_sent d rest"
proof (induction "pending_count c r" arbitrary: n r out r' es rest rule: less_induct)
  case less
  from less.prems show ?case
  proof (cases rule: processLoop_cases)
    case stop
    then show ?thesis by simp
  next
    case (thrown ms)
    then show ?thesis
      using sleeps_processMessages by blast
  next
    case (continue ms r1 es1 es2)
    have "sleeps_iff_sent d (es2 @ rest) = sleeps_iff_sent d rest"
      using less.hyps[OF continue(4) continue(2)] .
    then show ?thesis
      using sleeps_processMessages[OF continue(1)] continue(3) by simp
  qed
qed


lemma sendMessage_events:
  assumes "sendMessage send_ok d m r = (r1, es1)"
  shows "\<forall>e \<in> set es1. \<not> exceeding cfg e \<and> \<not> is_campaign_status e"
proof -
  obtain ok k es where w: "withRetry send_ok (bm_contact_phone m) (bm_message_content m) 3 0 (calls r) = (ok, k, es)"
    by (cases "withRetry send_ok (bm_contact_phone m) (bm_message_content m) 3 0 (calls r)")
  have "\<forall>e \<in> set es. \<not> exceeding cfg e \<and> \<not> is_campaign_status e"
    using withRetry_events[OF w]
    by (auto simp: is_attempt_def exceeding_def is_campaign_status_def split: event.splits)
  with assms w show ?thesis
    by (auto simp: sendMessage_def exceeding_def is_campaign_status_def split: if_splits)
qed

text \<open>
  The \<open>for\<close> loop throws exactly when its last event is a count over the threshold, and
  no earlier event is one.
\<close>

lemma processMessages_events:
  "processMessages cfg send_ok c d ms r = (thrown, r', es) \<Longrightarrow>
   (\<forall>e \<in> set es. \<not> is_campaign_status e) \<and>
   (if thrown then \<exists>pre s f. es = pre @ [CampaignStats c s f] \<and> threshold_exceeded cfg s f
                      \<and> (\<forall>e \<in> set pre. \<not> exceeding cfg e)
    else \<forall>e \<in> set es. \<not> exceeding cfg e)"
proof (induction ms arbitrary: r thrown r' es)
  case Nil
  then show ?case by simp
next
  case (Cons m ms)
  obtain r1 es1 where s: "sendMessage send_ok d m r = (r1, es1)"
    by (cases "sendMessage send_ok d m r")
  obtain r2 es2 where u: "updateStats c r1 = (r2, es2)"
    by (cases "updateStats c r1")
  then have es2: "es2 = [CampaignStats c (sentCount r2) (failedCount r2)]"
    by (auto simp: updateStats_def)
  note e1 = sendMessage_events[OF s, of cfg]
  show ?case
  proof (cases "threshold_exceeded cfg (sentCount r2) (failedCount r2)")
    case True
    with Cons.prems s u have "thrown" "es = es1 @ es2"
      by simp_all
    with True es2 e1 show ?thesis
      by (auto simp: is_campaign_status_def)
  next
    case False
    with Cons.prems s u obtain es3 where p: "processMessages cfg send_ok c d ms r2 = (thrown, r', es3)"
      and es: "es = es1 @ es2 @ es3"
      by (auto split: prod.splits)
    from False es2 have ne2: "\<forall>e \<in> set es2. \<not> exceeding cfg e \<and> \<not> is_campaign_status e"
      by (simp add: exceeding_def is_campaign_status_def)
    note ih = Cons.IH[OF p]
    show ?thesis
    proof (cases thrown)
      case True
      with ih obtain pre s f where "es3 = pre @ [CampaignStats c s f]" "threshold_exceeded cfg s f"
        "\<forall>e \<in> set pre. \<not> exceeding cfg e"
        by auto
      then have "es = (es1 @ es2 @ pre) @ [CampaignStats c s f]" "threshold_exceeded cfg s f"
        "\<forall>e \<in> set (es1 @ es2 @ pre). \<not> exceeding cfg e"
        using es e1 ne2 by auto
      with True ih e1 ne2 es show ?thesis
        by (metis (no_types, lifting) Un_iff set_append)
    next
      case False
      with ih e1 ne2 es show ?thesis
        by auto
    qed
  qed
qed

lemma find_campaign_update_message [simp]:
  "find_campaign c (update_message i f d) = find_campaign c d"
  by (simp add: find_campaign_def update_message_def)

lemma campaign_kept_sendMessage:
  "find_campaign c (store (fst (sendMessage send_ok d m r))) = find_campaign c (store r)"
  by (simp add: sendMessage_def split: prod.splits)

lemma campaign_kept_update:
  assumes "\<And>x. bc_id (f x) = bc_id x"
  shows "(find_campaign c (update_campaign i f d) = None) = (find_campaign c d = None)"
proof -
  have "length (filter (\<lambda>x. bc_id x = c) (map (\<lambda>x. if bc_id x = i then f x else x) cs)) =
        length (filter (\<lambda>x. bc_id x = c) cs)" for cs
    by (induction cs) (auto simp: assms)
  then have "length (filter (\<lambda>x. bc_id x = c) (broadcast_campaigns (update_campaign i f d))) =
             length (filter (\<lambda>x. bc_id x = c) (broadcast_campaigns d))"
    by (simp add: update_campaign_def)
  moreover have "(single xs = None) = (length xs \<noteq> 1)" for xs :: "campaign list"
    by (cases xs) (auto simp: single_def split: list.splits)
  ultimately show ?thesis
    by (simp add: find_campaign_def)
qed

lemma campaign_kept_processMessages:
  "processMessages cfg send_ok c d ms r = (thrown, r', es) \<Longrightarrow>
   (find_campaign c (store r') = None) = (find_campaign c (store r) = None)"
proof (induction ms arbitrary: r thrown r' es)
  case Nil
  then show ?case by simp
next
  case (Cons m ms)
  obtain r1 es1 where s: "sendMessage send_ok d m r = (r1, es1)"
    by (cases "sendMessage send_ok d m r")
  obtain r2 es2 where u: "updateStats c r1 = (r2, es2)"
    by (cases "updateStats c r1")
  have k1: "find_campaign c (store r1) = find_campaign c (store r)"
    using campaign_kept_sendMessage[of c send_ok d m r] s by simp
  have k2: "(find_campaign c (store r2) = None) = (find_campaign c (store r1) = None)"
    using u by (auto simp: updateStats_def campaign_kept_update)
  show ?case
  proof (cases "threshold_exceeded cfg (sentCount r2) (failedCount r2)")
    case True
    with Cons.prems s u k1 k2 show ?thesis by auto
  next
    case False
    with Cons.prems s u obtain es3 where p: "processMessages cfg send_ok c d ms r2 = (thrown, r', es3)"
      by (auto split: prod.splits)
    from Cons.IH[OF p] k1 k2 show ?thesis by simp
  qed
qed

text \<open>
  The \<open>while\<close> loop, started on a campaign that exists: it ends \<open>Failed\<close> exactly when its
  last event is a count over the threshold; no earlier event is one.
\<close>

lemma processLoop_events:
  "processLoop cfg command send_ok c d n r = (out, r', es) \<Longrightarrow>
   find_campaign c (store r) \<noteq> None \<Longrightarrow>
   (\<forall>e \<in> set es. \<not> is_campaign_status e) \<and>
   (if out = Failed then \<exists>pre s f. es = pre @ [CampaignStats c s f] \<and> threshold_exceeded cfg s f
                      \<and> (\<forall>e \<in> set pre. \<not> exceeding cfg e)
    else \<forall>e \<in> set es. \<not> exceeding cfg e)"
proof (induction "pending_count c r" arbitrary: n r out r' es rule: less_induct)
  case less
  have kept: "find_campaign c (store (after_command command c n r)) \<noteq> None"
    using less.prems(2) by (auto simp: after_command_def find_campaign_update split: option.splits)
  from less.prems(1) show ?case
  proof (cases rule: processLoop_cases)
    case stop
    with kept show ?thesis by auto
  next
    case (thrown ms)
    with processMessages_events[OF thrown(2)] show ?thesis
      by simp
  next
    case (continue ms r1 es1 es2)
    have k1: "find_campaign c (store r1) \<noteq> None"
      using campaign_kept_processMessages[OF continue(1)] kept by simp
    note ih = less.hyps[OF continue(4) continue(2) k1]
    note pm = processMessages_events[OF continue(1)]
    show ?thesis
    proof (cases "out = Failed")
      case True
      with ih obtain pre s f where "es2 = pre @ [CampaignStats c s f]" "threshold_exceeded cfg s f"
        "\<forall>e \<in> set pre. \<not> exceeding cfg e"
        by auto
      then have "es = (es1 @ pre) @ [CampaignStats c s f]" "threshold_exceeded cfg s f"
        "\<forall>e \<in> set (es1 @ pre). \<not> exceeding cfg e"
        using continue(3) pm by auto
      with True ih pm continue(3) show ?thesis
        by (metis (no_types, lifting) Un_iff set_append)
    next
      case False
      with ih pm continue(3) show ?thesis
        by auto
    qed
  qed
qed


lemma campaign_kept_processLoop:
  "processLoop cfg command send_ok c d n r = (out, r', es) \<Longrightarrow>
   find_campaign c (store r) \<noteq> None \<Longrightarrow> find_campaign c (store r') \<noteq> None"
proof (induction "pending_count c r" arbitrary: n r out r' es rule: less_induct)
  case less
  have kept: "find_campaign c (store (after_command command c n r)) \<noteq> None"
    using less.prems(2) by (auto simp: after_command_def find_campaign_update split: option.splits)
  from less.prems(1) show ?case
  proof (cases rule: processLoop_cases)
    case stop
    with kept show ?thesis by simp
  next
    case (thrown ms)
    with campaign_kept_processMessages[OF thrown(2)] kept show ?thesis
      by simp
  next
    case (continue ms r1 es1 es2)
    have "find_campaign c (store r1) \<noteq> None"
      using campaign_kept_processMessages[OF continue(1)] kept by simp
    from less.hyps[OF continue(4) continue(2) this] show ?thesis .
  qed
qed

lemma threshold_30_at_7_4:
  "failureThreshold cfg = 30 \<Longrightarrow> threshold_exceeded cfg 7 4"
  by (simp add: threshold_exceeded_def failureRate_def)

text \<open>
  Claim C4. With the failure threshold at 30 (a rate above 30 per cent aborts, once more
  than 10 messages are counted): in any call of \<open>processCampaign\<close>, if the counts reach 7
  sent and 4 failed (the state after 11 processed messages with 4 failures), then the only
  thing the call still does is to write the status \<open>failed\<close>: no further send is issued,
  the call ends as failed and the stored status is \<open>failed\<close>. And whenever the write of
  \<open>failed\<close> follows a count directly, which is what an abort by the threshold looks like,
  that count is of more than 10 messages. The counts are those of the current call.
\<close>

theorem processCampaign_threshold_abort:
  assumes "failureThreshold cfg = 30"
    and "processCampaign cfg command send_ok campaignId now d = (out, d', es)"
  shows "(\<forall>pre post. es = pre @ CampaignStats campaignId 7 4 # post \<longrightarrow>
            post = [CampaignStatus campaignId ''failed''] \<and> out = Failed \<and>
            map_option bc_status (find_campaign campaignId d') = Some ''failed'')
       \<and> (\<forall>pre s f post.
            es = pre @ CampaignStats campaignId s f # CampaignStatus campaignId ''failed'' # post \<longrightarrow>
            s + f > 10)"
proof -
  let ?X = "CampaignStats campaignId 7 4"
  let ?F = "CampaignStatus campaignId ''failed''"
  have X: "exceeding cfg ?X"
    using threshold_30_at_7_4[OF assms(1)] by (simp add: exceeding_def)
  consider (early) "es = [?F]"
    | (loop) campaign delayMs lout r les where
        "find_campaign campaignId d = Some campaign"
        "processLoop cfg command send_ok campaignId delayMs 0
           \<lparr>store = d, sentCount = 0, failedCount = 0, calls = 0\<rparr> = (lout, r, les)"
        "lout = Completed \<longrightarrow> out = Completed \<and> es = les @ [CampaignStatus campaignId ''completed'']"
        "lout = Failed \<longrightarrow> out = Failed \<and> es = les @ [?F] \<and>
           d' = update_campaign campaignId
                  (\<lambda>c. c\<lparr>bc_status := ''failed'', completed_at := Some now\<rparr>) (store r)"
        "lout \<noteq> Completed \<and> lout \<noteq> Failed \<longrightarrow> out = lout \<and> es = les"
  proof (cases "find_campaign campaignId d")
    case None
    with assms(2) have "es = [?F]"
      by (auto simp: processCampaign_def processCampaign_failed_def)
    then show ?thesis by (rule early)
  next
    case (Some campaign)
    show ?thesis
    proof (cases "single (filter (\<lambda>w. ws_id w = bc_workspace_id campaign) (workspaces d))")
      case None
      with assms(2) Some have "es = [?F]"
        by (auto simp: processCampaign_def processCampaign_failed_def)
      then show ?thesis by (rule early)
    next
      case (Some ws)
      note ws = Some
      show ?thesis
      proof (cases "falsy_string (whatsapp_phone_number_id ws) \<or> falsy_string (whatsapp_access_token ws)")
        case True
        with assms(2) \<open>find_campaign campaignId d = Some campaign\<close> ws have "es = [?F]"
          by (auto simp: processCampaign_def processCampaign_failed_def)
        then show ?thesis by (rule early)
      next
        case False
        define delayMs :: rat where "delayMs = 1000 / of_int (rateLimit_of cfg campaign)"
        obtain lout r les where l: "processLoop cfg command send_ok campaignId delayMs 0
           \<lparr>store = d, sentCount = 0, failedCount = 0, calls = 0\<rparr> = (lout, r, les)"
          by (cases "processLoop cfg command send_ok campaignId delayMs 0
           \<lparr>store = d, sentCount = 0, failedCount = 0, calls = 0\<rparr>")
        from assms(2) \<open>find_campaign campaignId d = Some campaign\<close> ws False l
        have res: "(out, d', es) =
            (case (lout, r, les) of
               (Completed, r, es) \<Rightarrow>
                 (Completed,
                  update_campaign campaignId
                    (\<lambda>c. c\<lparr>bc_status := ''completed'', completed_at := Some now\<rparr>) (store r),
                  es @ [CampaignStatus campaignId ''completed''])
             | (Failed, r, es) \<Rightarrow> processCampaign_failed campaignId now (store r) es
             | (out, r, es) \<Rightarrow> (out, store r, es))"
          by (simp add: processCampaign_def Let_def delayMs_def)
        show ?thesis
          using res
          by (intro loop[OF \<open>find_campaign campaignId d = Some campaign\<close> l])
             (cases lout; simp add: processCampaign_failed_def)+
      qed
    qed
  qed
  then show ?thesis
  proof cases
    case early
    then show ?thesis
      by (auto simp: append_eq_Cons_conv Cons_eq_append_conv)
  next
    case (loop campaign delayMs lout r les)
    have start: "find_campaign campaignId (store \<lparr>store = d, sentCount = 0, failedCount = 0, calls = 0\<rparr>) \<noteq> None"
      using loop(1) by simp
    note ev = processLoop_events[OF loop(2) start]
    have no_status: "\<forall>e \<in> set les. \<not> is_campaign_status e"
      using ev by simp
    then have F_not_loop: "?F \<notin> set les"
      by (auto simp: is_campaign_status_def)
    show ?thesis
    proof (cases "lout = Failed")
      case True
      with ev obtain lpre s0 f0 where les: "les = lpre @ [CampaignStats campaignId s0 f0]"
        and ex: "threshold_exceeded cfg s0 f0" and quiet: "\<forall>e \<in> set lpre. \<not> exceeding cfg e"
        by auto
      from True loop(4) have out: "out = Failed" and es: "es = les @ [?F]"
        and d': "d' = update_campaign campaignId
                  (\<lambda>c. c\<lparr>bc_status := ''failed'', completed_at := Some now\<rparr>) (store r)"
        by simp_all
      have exists: "find_campaign campaignId (store r) \<noteq> None"
        using campaign_kept_processLoop[OF loop(2) start] .
      have status: "map_option bc_status (find_campaign campaignId d') = Some ''failed''"
        using exists by (auto simp: d' find_campaign_update)
      have first: "post = [?F]" if split: "es = pre @ ?X # post" for pre post
      proof -
        have "?X \<in> set (lpre @ [CampaignStats campaignId s0 f0, ?F])"
          using split es les by (metis append.assoc append_Cons append_Nil in_set_conv_decomp)
        moreover have "?X \<notin> set lpre"
          using quiet X by blast
        ultimately have eq: "CampaignStats campaignId s0 f0 = ?X"
          by auto
        have "lpre @ ?X # [?F] = pre @ ?X # post"
          using split es les eq by simp
        moreover have "?X \<notin> set lpre" "?X \<notin> set [?F]"
          using quiet X by auto
        ultimately show ?thesis
          by (metis append_Cons_eq_iff)
      qed
      have second: "s + f > 10"
        if split: "es = pre @ CampaignStats campaignId s f # ?F # post" for pre s f post
      proof -
        have "(lpre @ [CampaignStats campaignId s0 f0]) @ ?F # [] =
              (pre @ [CampaignStats campaignId s f]) @ ?F # post"
          using split es les by simp
        moreover have "?F \<notin> set (lpre @ [CampaignStats campaignId s0 f0])" "?F \<notin> set []"
          using F_not_loop les by auto
        ultimately have "lpre @ [CampaignStats campaignId s0 f0] = pre @ [CampaignStats campaignId s f]"
          by (metis append_Cons_eq_iff)
        then have "s0 = s" "f0 = f"
          by auto
        with ex show ?thesis
          by (simp add: threshold_exceeded_def)
      qed
      from first second out status show ?thesis
        by blast
    next
      case False
      with ev have quiet: "\<forall>e \<in> set les. \<not> exceeding cfg e"
        by simp
      from False loop(3,5) have es: "es = les \<or> es = les @ [CampaignStatus campaignId ''completed'']"
        by (cases lout) auto
      have noX: "?X \<notin> set es"
        using es quiet X by auto
      have noF: "?F \<notin> set es"
        using es F_not_loop by auto
      show ?thesis
        using noX noF by auto
    qed
  qed
qed

text \<open>
  Claim C8, as the code has it: in every call of \<open>processCampaign\<close>, a message marked
  \<open>sent\<close> is directly followed by a sleep of \<open>1000 / rateLimit\<close> ms, where \<open>rateLimit\<close> is
  the campaign's rate limit or, when that is unset or 0, the configured default; a
  message marked \<open>failed\<close> is not followed by a sleep; and the loop sleeps nowhere else.
\<close>

theorem processCampaign_sleeps_after_sent_only:
  assumes "find_campaign campaignId d = Some campaign"
  shows "sleeps_iff_sent (1000 / of_int (rateLimit_of cfg campaign))
           (snd (snd (processCampaign cfg command send_ok campaignId now d)))"
proof -
  define delayMs :: rat where "delayMs = 1000 / of_int (rateLimit_of cfg campaign)"
  obtain lout r les where l: "processLoop cfg command send_ok campaignId delayMs 0
     \<lparr>store = d, sentCount = 0, failedCount = 0, calls = 0\<rparr> = (lout, r, les)"
    by (cases "processLoop cfg command send_ok campaignId delayMs 0
     \<lparr>store = d, sentCount = 0, failedCount = 0, calls = 0\<rparr>")
  have loop: "sleeps_iff_sent delayMs (les @ rest) = sleeps_iff_sent delayMs rest" for rest
    using sleeps_processLoop[OF l] .
  have "snd (snd (processCampaign cfg command send_ok campaignId now d)) = [CampaignStatus campaignId ''failed'']
      \<or> snd (snd (processCampaign cfg command send_ok campaignId now d)) = les
      \<or> (\<exists>s. snd (snd (processCampaign cfg command send_ok campaignId now d)) = les @ [CampaignStatus campaignId s])"
    using assms l
    by (cases lout)
       (auto simp: processCampaign_def processCampaign_failed_def Let_def delayMs_def split: option.splits)
  then show ?thesis
    using loop[of "[]"] loop[of "[CampaignStatus campaignId s]" for s]
    by (auto simp: delayMs_def)
qed


lemmas run_defs = processCampaign_def find_campaign_def single_def example_queue_def
  example_database_def example_campaign_def example_workspace_def falsy_string_def
  rateLimit_of_def config_broadcast_def processLoop.simps pending_messages_def
  update_campaign_def update_message_def sendMessage_def withRetry.simps updateStats_def
  threshold_exceeded_def failureRate_def Let_def processCampaign_failed_def after_command_def
  next_batch_def

text \<open>
  A run for C4: thirteen pending messages, the first twelve calls of \<open>sendText\<close> fail (four
  messages fail after three attempts each), the following ones succeed. The eleventh
  message brings the counts to 7 and 4, and the call ends there.
\<close>

theorem processCampaign_threshold_abort_witness:
  "fst (processCampaign (config_broadcast None None) (\<lambda>n. None) (\<lambda>k. 12 \<le> k) 5 2000
          example_backlog) = Failed
   \<and> map_option bc_status
        (find_campaign 5
          (fst (snd (processCampaign (config_broadcast None None) (\<lambda>n. None) (\<lambda>k. 12 \<le> k)
                       5 2000 example_backlog)))) = Some ''failed''
   \<and> (\<exists>pre. snd (snd (processCampaign (config_broadcast None None) (\<lambda>n. None) (\<lambda>k. 12 \<le> k)
                          5 2000 example_backlog)) =
               pre @ [CampaignStats 5 7 4, CampaignStatus 5 ''failed''])"
proof -
  define run where
    "run = processCampaign (config_broadcast None None) (\<lambda>n. None) (\<lambda>k. 12 \<le> k) 5 2000
             example_backlog"
  have threshold: "failureThreshold (config_broadcast None None) = 30"
    by (simp add: config_broadcast_def)
  have run: "processCampaign (config_broadcast None None) (\<lambda>n. None) (\<lambda>k. 12 \<le> k) 5 2000
               example_backlog = (fst run, fst (snd run), snd (snd run))"
    by (simp add: run_def)
  have "CampaignStats 5 7 4 \<in> set (snd (snd run))"
    unfolding run_def
    by (simp add: run_defs example_backlog_def example_message_def upt_conv_Cons)
  then obtain pre post where split: "snd (snd run) = pre @ CampaignStats 5 7 4 # post"
    by (meson split_list)
  from processCampaign_threshold_abort[OF threshold run] split
  have "post = [CampaignStatus 5 ''failed'']" "fst run = Failed"
    "map_option bc_status (find_campaign 5 (fst (snd run))) = Some ''failed''"
    by blast+
  with split show ?thesis
    unfolding run_def by blast
qed

text \<open>
  Claim C8. The claim says that the loop sleeps \<open>1000 / rateLimit\<close> ms after every
  processed message, sent or failed. The call of \<open>this.sleep(delayMs)\<close> stands inside the
  \<open>try\<close> block, after the send has succeeded; the \<open>catch\<close> block has none. In the run
  below (rate limit 10, so 100 ms) the first message fails and no sleep follows it.
\<close>

theorem processCampaign_no_sleep_after_failed_counterexample:
  "\<not> sleeps_after_every_message (1000 / 10)
       (snd (snd (processCampaign (config_broadcast None None) (\<lambda>n. None) (\<lambda>k. 3 \<le> k) 5 2000
                    example_queue)))"
  by (simp add: run_defs)

theorem processCampaign_sleeps_after_sent_only_witness:
  "sleeps_iff_sent 100
     (snd (snd (processCampaign (config_broadcast None None) (\<lambda>n. None) (\<lambda>k. 3 \<le> k) 5 2000
                  example_queue)))
   \<and> snd (snd (processCampaign (config_broadcast None None) (\<lambda>n. None) (\<lambda>k. 3 \<le> k) 5 2000
                  example_queue)) =
       [SendText ''+33611111111'' ''Hi Ann'' False, RetryDelay 1000,
        SendText ''+33611111111'' ''Hi Ann'' False, RetryDelay 2000,
        SendText ''+33611111111'' ''Hi Ann'' False, RetryDelay 4000,
        MessageStatus 0 ''failed'', CampaignStats 5 0 1,
        SendText ''+33633333333'' ''Hi Cid'' True, MessageStatus 1 ''sent'',
        Sleep 100, CampaignStats 5 1 1, CampaignStatus 5 ''completed'']"
proof -
  have c: "find_campaign 5 example_queue = Some example_campaign"
    by (simp add: find_campaign_def single_def example_queue_def example_database_def
        example_campaign_def)
  have r: "(1000 :: rat) / of_int (rateLimit_of (config_broadcast None None) example_campaign) = 100"
    by (simp add: rateLimit_of_def config_broadcast_def example_campaign_def)
  have "sleeps_iff_sent 100
     (snd (snd (processCampaign (config_broadcast None None) (\<lambda>n. None) (\<lambda>k. 3 \<le> k) 5 2000
                  example_queue)))"
    using processCampaign_sleeps_after_sent_only[OF c, of "config_broadcast None None"
        "\<lambda>n. None" "\<lambda>k. 3 \<le> k" 2000] r
    by simp
  moreover have "snd (snd (processCampaign (config_broadcast None None) (\<lambda>n. None) (\<lambda>k. 3 \<le> k) 5 2000
                  example_queue)) =
       [SendText ''+33611111111'' ''Hi Ann'' False, RetryDelay 1000,
        SendText ''+33611111111'' ''Hi Ann'' False, RetryDelay 2000,
        SendText ''+33611111111'' ''Hi Ann'' False, RetryDelay 4000,
        MessageStatus 0 ''failed'', CampaignStats 5 0 1,
        SendText ''+33633333333'' ''Hi Cid'' True, MessageStatus 1 ''sent'',
        Sleep 100, CampaignStats 5 1 1, CampaignStatus 5 ''completed'']"
    by (simp add: run_defs)
  ultimately show ?thesis
    by blast
qed


section \<open>Properties of the dead letter queue\<close>
















section \<open>The flow engine: node executions of a run\<close>

text \<open>Only \<open>executeNode\<close> writes the line \<open>Executing node\<close>, once per call.\<close>

lemma is_executing_simps:
  "is_executing (Executing a b) = True"
  "is_executing (WhatsAppText t) = False"
  "is_executing (WhatsAppButtons t bs) = False"
  "is_executing (WhatsAppMedia ty u t) = False"
  "is_executing (LogMessage d c ty) = False"
  "is_executing (SaveContext c') = False"
  "is_executing (Timeout k) = False"
  "is_executing (ConversationStatus st) = False"
  "is_executing (HttpCall m u') = False"
  "is_executing (Warn w) = False"
  by (simp_all add: is_executing_def)

lemma node_executions_emit:
  "node_executions (emit e s) = (if is_executing e then Suc (node_executions s) else node_executions s)"
  by (simp add: node_executions_def emit_def)

lemma node_executions_updates:
  "node_executions (s\<lparr>ctx := c\<rparr>) = node_executions s"
  "node_executions (s\<lparr>saved := sv\<rparr>) = node_executions s"
  "node_executions (s\<lparr>clock := t\<rparr>) = node_executions s"
  "node_executions (s\<lparr>whatsapp_calls := k\<rparr>) = node_executions s"
  "node_executions (s\<lparr>http_calls := k\<rparr>) = node_executions s"
  by (simp_all add: node_executions_def)

lemma node_executions_whatsapp_send:
  "whatsapp_send orc e s = (s1, r) \<Longrightarrow> \<not> is_executing e \<Longrightarrow> node_executions s1 = node_executions s"
  by (auto simp: whatsapp_send_def node_executions_emit node_executions_updates split: if_splits)

lemma node_executions_whatsapp_send_fst:
  "\<not> is_executing e \<Longrightarrow> node_executions (fst (whatsapp_send orc e s)) = node_executions s"
  by (simp add: whatsapp_send_def node_executions_emit node_executions_updates)

lemma node_executions_logMessage:
  "node_executions (logMessage d c t s) = node_executions s"
  by (simp add: logMessage_def node_executions_emit is_executing_simps)

lemma node_executions_saveContext:
  "node_executions (saveContext s) = node_executions s"
  by (simp add: saveContext_def node_executions_emit is_executing_simps node_executions_updates)

lemma node_executions_set_variable:
  "node_executions (set_variable k v s) = node_executions s"
  by (simp add: set_variable_def node_executions_updates)

lemma node_executions_timeout:
  "node_executions (timeout d s) = node_executions s"
  by (simp add: timeout_def node_executions_emit is_executing_simps node_executions_updates)

lemma node_executions_advance:
  "node_executions (advance n s) = node_executions s"
  by (simp add: advance_def node_executions_updates)

lemmas node_executions_simps =
  node_executions_emit node_executions_updates node_executions_logMessage
  node_executions_saveContext node_executions_set_variable node_executions_timeout
  node_executions_advance is_executing_simps

lemma node_executions_executeSendMessage:
  "node_executions (fst (executeSendMessage orc m t u bs s)) = node_executions s"
proof -
  have "\<And>e. \<not> is_executing e \<Longrightarrow>
     node_executions (fst (case whatsapp_send orc e s of
           (s1, Threw err) \<Rightarrow> (s1, Threw err)
         | (s1, Returned _) \<Rightarrow> (logMessage ''outgoing'' x t s1, Returned True))) = node_executions s" for x
    by (auto split: prod.splits completion.splits simp: node_executions_simps
        dest!: node_executions_whatsapp_send)
  then show ?thesis
    unfolding executeSendMessage_def Let_def
    by (auto split: option.splits simp: is_executing_simps)
qed

lemma node_executions_executeAskQuestion:
  "node_executions (fst (executeAskQuestion orc i q s)) = node_executions s"
  unfolding executeAskQuestion_def Let_def
  by (auto split: prod.splits completion.splits simp: node_executions_simps
      dest!: node_executions_whatsapp_send)

lemma node_executions_executeCondition:
  "node_executions (fst (executeCondition v op x br s)) = node_executions s"
  unfolding executeCondition_def Let_def
  by (auto split: option.splits prod.splits simp: node_executions_simps)

lemma node_executions_executeDelay:
  "node_executions (fst (executeDelay d s)) = node_executions s"
  unfolding executeDelay_def Let_def
  by (simp add: node_executions_simps)

lemma node_executions_executeSetVariable:
  "node_executions (fst (executeSetVariable k v s)) = node_executions s"
  unfolding executeSetVariable_def
  by (simp add: node_executions_simps)

lemma node_executions_executeHttpRequest:
  "node_executions (fst (executeHttpRequest orc m u sv s)) = node_executions s"
  unfolding executeHttpRequest_def Let_def
  by (auto split: sum.splits simp: node_executions_simps)

lemma node_executions_executeAssignToHuman:
  "node_executions (fst (executeAssignToHuman orc m s)) = node_executions s"
  unfolding executeAssignToHuman_def Let_def
  by (auto split: prod.splits completion.splits simp: node_executions_simps
      dest!: node_executions_whatsapp_send)

lemma node_executions_executeNode:
  "node_executions (fst (executeNode orc n s)) = Suc (node_executions s)"
  unfolding executeNode_def Let_def
  by (simp split: node_kind.splits
      add: node_executions_simps node_executions_executeSendMessage
        node_executions_executeAskQuestion node_executions_executeCondition
        node_executions_executeDelay node_executions_executeSetVariable
        node_executions_executeHttpRequest node_executions_executeAssignToHuman)

lemma node_executions_loop:
  "node_executions (fst (executeNodes_loop orc b cur i s)) \<le> node_executions s + (maxIterations - i)"
proof (induction orc b cur i s rule: executeNodes_loop.induct)
  case (1 orc b currentNode iterations s)
  show ?case
  proof (cases currentNode)
    case None
    then show ?thesis by (subst executeNodes_loop.simps) simp
  next
    case (Some n)
    show ?thesis
    proof (cases "iterations < maxIterations")
      case False
      then show ?thesis using Some by (subst executeNodes_loop.simps) simp
    next
      case True
      obtain s1 r where ex: "executeNode orc n s = (s1, r)" by (cases "executeNode orc n s")
      have s1: "node_executions s1 = Suc (node_executions s)"
        using node_executions_executeNode [of orc n s] ex by simp
      show ?thesis
      proof (cases r)
        case (Threw err)
        then show ?thesis using Some True ex s1
          by (subst executeNodes_loop.simps) simp
      next
        case (Returned shouldContinue)
        show ?thesis
        proof (cases "shouldContinue \<and> findNextNode b n \<noteq> None")
          case False
          then show ?thesis using Some True ex s1 Returned
            by (subst executeNodes_loop.simps) (auto split: option.splits)
        next
          case cont: True
          then obtain nextNode where nx: "findNextNode b n = Some nextNode" by auto
          have "node_executions (fst (executeNodes_loop orc b (Some nextNode) (Suc iterations)
                   (advance nextNode s1)))
                \<le> node_executions (advance nextNode s1) + (maxIterations - Suc iterations)"
            using "1.IH" [OF Some True ex [symmetric] Returned _ nx] cont by simp
          then show ?thesis using Some True ex s1 Returned cont nx
            by (subst executeNodes_loop.simps) (simp add: node_executions_advance)
        qed
      qed
    qed
  qed
qed

lemma node_executions_executeNodes:
  "node_executions (fst (executeNodes orc b s)) \<le> node_executions s + 100"
  unfolding executeNodes_def
  using node_executions_loop [of orc b "findNodeById b (current_node_id (ctx s))" 0 s]
  by (auto split: prod.splits completion.splits simp: node_executions_simps maxIterations_def)

lemma node_executions_handleUserResponse:
  "node_executions (fst (handleUserResponse orc b m s)) = node_executions s"
  unfolding handleUserResponse_def Let_def
  by (auto split: option.splits node_kind.splits
      simp: node_executions_simps node_executions_whatsapp_send_fst)

lemma node_executions_handleError:
  "node_executions (fst (handleError orc err s)) = node_executions s"
  unfolding handleError_def
  by (auto split: prod.splits completion.splits simp: node_executions_simps
      dest!: node_executions_whatsapp_send)

lemma node_executions_execute_body:
  "node_executions (fst (execute_body orc b m s)) \<le> node_executions s + 100"
proof -
  have step: "node_executions (fst (case x of
                (s2, Threw err) \<Rightarrow> (s2, Threw err)
              | (s2, Returned _) \<Rightarrow> executeNodes orc b s2)) \<le> node_executions (fst x) + 100" for x
    using node_executions_executeNodes [of orc b "fst x"]
    by (auto split: prod.splits completion.splits)
  have entered: "node_executions (fst (case (if c then handleUserResponse orc b t s1 else (s1, Returned ())) of
                (s2, Threw err) \<Rightarrow> (s2, Threw err)
              | (s2, Returned _) \<Rightarrow> executeNodes orc b s2)) \<le> node_executions s1 + 100" for c t s1
    using step [of "if c then handleUserResponse orc b t s1 else (s1, Returned ())"]
      node_executions_handleUserResponse [of orc b t s1]
    by (simp split: if_splits)
  define e where "e =
     (if falsy_string (current_node_id (ctx s)) then
        (case findTrigger b m s of
           None \<Rightarrow> None
         | Some triggerNode \<Rightarrow>
             Some (s\<lparr>ctx := (ctx s)\<lparr>current_node_id := Some (node_id triggerNode),
                                     flow_history := [node_id triggerNode]\<rparr>\<rparr>))
      else Some s)"
  have same: "node_executions s1 = node_executions s" if "e = Some s1" for s1
    using that unfolding e_def
    by (auto split: if_splits option.splits simp: node_executions_simps)
  have body: "execute_body orc b m s =
     (case e of
        None \<Rightarrow> (emit (Warn ''No trigger found'') s, Returned ())
      | Some s1 \<Rightarrow>
          (case (if \<not> falsy_string (waiting_for (ctx s1)) \<and> m \<noteq> None
                 then handleUserResponse orc b (the m) s1
                 else (s1, Returned ())) of
             (s2, Threw err) \<Rightarrow> (s2, Threw err)
           | (s2, Returned _) \<Rightarrow> executeNodes orc b s2))"
    unfolding execute_body_def Let_def e_def by (rule refl)
  show ?thesis
  proof (cases e)
    case None
    then show ?thesis by (simp add: body node_executions_simps)
  next
    case (Some s1)
    then show ?thesis
      using entered [of "\<not> falsy_string (waiting_for (ctx s1)) \<and> m \<noteq> None" "the m" s1] same [OF Some]
      by (simp add: body)
  qed
qed

lemma node_executions_execute:
  "node_executions (fst (execute orc b m s)) \<le> node_executions s + 100"
  unfolding execute_def
  using node_executions_execute_body [of orc b m s]
  by (auto split: prod.splits completion.splits simp: node_executions_handleError)

lemma loop_at_cap: "executeNodes_loop orc b currentNode 100 s = (s, Returned ())"
  by (subst executeNodes_loop.simps) (simp add: maxIterations_def split: option.splits)

lemma lookup_set_property: "lookup (set_property k v obj) k = v"
proof -
  have "map_of (map (\<lambda>(k', v'). if k' = k then (k', v) else (k', v')) obj) k = Some v"
    if "k \<in> fst ` set obj"
    using that by (induction obj) (auto split: prod.splits)
  moreover have "map_of (obj @ [(k, v)]) k = Some v" if "k \<notin> fst ` set obj"
  proof -
    have "map_of obj k = None" using that by (simp add: map_of_eq_None_iff)
    then show ?thesis by (simp add: map_add_def)
  qed
  ultimately show ?thesis
    by (simp add: lookup_def set_property_def)
qed

lemmas flow_defs =
  execute_def execute_body_def executeNodes_def executeNodes_loop.simps executeNode_def
  executeSetVariable_def executeDelay_def executeAskQuestion_def executeSendMessage_def
  handleUserResponse_def handleError_def findNodeById_def findNextNode_def findTrigger_def
  trigger_matches_def validateResponse_def set_variable_def set_property_def saveContext_def
  logMessage_def whatsapp_send_def emit_def timeout_def advance_def start_engine_def
  node_type_def maxIterations_def falsy_string_def js_text_def lookup_def
  node_executions_def is_executing_def

lemma example_loop_next:
  assumes "n \<in> set (flow_nodes example_loop)"
  shows "\<exists>s1 n'. executeNode orc n s = (s1, Returned True) \<and>
           findNextNode example_loop n = Some n' \<and> n' \<in> set (flow_nodes example_loop)"
  using assms
  by (auto simp: example_loop_def executeNode_def executeSetVariable_def findNextNode_def
      findNodeById_def Let_def)

lemma example_loop_count:
  assumes "n \<in> set (flow_nodes example_loop)"
  shows "node_executions (fst (executeNodes_loop orc example_loop (Some n) i s)) =
           node_executions s + (100 - i)"
  using assms
proof (induction "100 - i" arbitrary: i n s)
  case 0
  then show ?case by (subst executeNodes_loop.simps) (simp add: maxIterations_def)
next
  case (Suc k)
  obtain s1 n' where step: "executeNode orc n s = (s1, Returned True)"
      "findNextNode example_loop n = Some n'" "n' \<in> set (flow_nodes example_loop)"
    using example_loop_next [OF Suc.prems] by blast
  have s1: "node_executions s1 = Suc (node_executions s)"
    using node_executions_executeNode [of orc n s] step(1) by simp
  have lt: "i < 100" using Suc.hyps(2) by arith
  have unfold: "executeNodes_loop orc example_loop (Some n) i s =
      executeNodes_loop orc example_loop (Some n') (Suc i) (advance n' s1)"
    by (subst executeNodes_loop.simps) (simp add: maxIterations_def lt step)
  have "node_executions (fst (executeNodes_loop orc example_loop (Some n') (Suc i) (advance n' s1))) =
          node_executions (advance n' s1) + (100 - Suc i)"
    using Suc.hyps(1) [of "Suc i" n' "advance n' s1"] Suc.hyps(2) step(3) by simp
  then have "node_executions (fst (executeNodes_loop orc example_loop (Some n) i s)) =
          Suc (node_executions s) + (100 - Suc i)"
    by (simp add: unfold node_executions_advance s1)
  then show ?case using lt by arith
qed


text \<open>
  Claim C2. One run of \<open>execute\<close> executes at most 100 nodes, whatever the flow graph
  (cyclic or not), the context it starts from, the inbound message and the answers of
  the collaborators; and the loop of \<open>executeNodes\<close> stops when its counter has reached
  100: it returns without executing the current node. The loop is a terminating
  recursion on \<open>100 - iterations\<close>, so every run returns.
\<close>

theorem execute_at_most_100_node_executions:
  "node_executions (fst (execute orc b incomingMessage s)) \<le> node_executions s + 100 \<and>
   executeNodes_loop orc b currentNode 100 s = (s, Returned ())"
  using node_executions_execute [of orc b incomingMessage s] loop_at_cap [of orc b currentNode s]
  by simp


text \<open>The graph \<open>a \<rightarrow> b \<rightarrow> a\<close> of two \<open>set_variable\<close> nodes: the run executes exactly 100 nodes.\<close>

theorem execute_at_most_100_node_executions_witness:
  "node_executions (fst (execute all_sent example_loop None (start_engine example_cycle_start 0))) \<le> 100 \<and>
   node_executions (fst (executeNodes all_sent example_loop (start_engine example_cycle_start 0))) = 100"
proof -
  have start: "findNodeById example_loop (current_node_id (ctx (start_engine example_cycle_start 0))) =
      Some \<lparr>node_id = ''a'', node_kind = SetVariable ''x'' ''1''\<rparr>"
    by (simp add: findNodeById_def example_loop_def example_cycle_start_def start_engine_def)
  have zero: "node_executions (start_engine example_cycle_start 0) = 0"
    by (simp add: node_executions_def start_engine_def)
  have "node_executions (fst (executeNodes all_sent example_loop (start_engine example_cycle_start 0))) = 100"
    unfolding executeNodes_def start
    using example_loop_count [of "\<lparr>node_id = ''a'', node_kind = SetVariable ''x'' ''1''\<rparr>"
        all_sent 0 "start_engine example_cycle_start 0"]
    by (auto split: prod.splits completion.splits
        simp: zero node_executions_saveContext example_loop_def)
  then show ?thesis
    using execute_at_most_100_node_executions
      [of all_sent example_loop None "start_engine example_cycle_start 0"]
    by (simp add: zero)
qed

section \<open>The flow engine: delays\<close>

text \<open>
  Claim C5 as stated: the persisted resume time is the start of the run plus the
  duration. A run that starts at time 5000 on a delay of 1000 ms followed by a delay of
  40000 ms persists 46000, not 5000 + 40000: \<open>executeDelay\<close> reads \<open>Date.now()\<close> when the
  node is executed.
\<close>

theorem executeDelay_resume_at_run_start_counterexample:
  "lookup (variables (ctx (fst (execute all_sent example_delays None (start_engine example_at_delay 5000)))))
     ''resume_at'' = JNum 46000 \<and>
   saved (fst (execute all_sent example_delays None (start_engine example_at_delay 5000))) =
     Some (ctx (fst (execute all_sent example_delays None (start_engine example_at_delay 5000)))) \<and>
   JNum 46000 \<noteq> JNum (clock (start_engine example_at_delay 5000) + 40000)"
  by (simp add: flow_defs example_delays_def example_at_delay_def all_sent_def)


text \<open>
  Claim C5, as the code has it (durations are whole numbers of milliseconds): a delay of
  at most 30000 ms waits for the duration in the process, returns \<open>true\<close> and leaves the
  context and the saved row as they are; a delay above 30000 ms stores, under the
  variable \<open>resume_at\<close>, the time at which the node is executed plus the duration, saves
  the context and returns \<open>false\<close>, provided that this time is a valid date (within
  8,640,000,000,000,000 ms of the epoch).
\<close>

theorem executeDelay_threshold:
  "(duration \<le> 30000 \<longrightarrow>
      (\<exists>s'. executeDelay duration s = (s', Returned True) \<and>
            journal s' = journal s @ [Timeout duration] \<and>
            saved s' = saved s \<and> ctx s' = ctx s \<and> clock s + duration \<le> clock s')) \<and>
   (30000 < duration \<and> \<bar>clock s + duration\<bar> \<le> 8640000000000000 \<longrightarrow>
      (\<exists>s'. executeDelay duration s = (s', Returned False) \<and>
            journal s' = journal s @ [SaveContext (ctx s')] \<and>
            saved s' = Some (ctx s') \<and>
            lookup (variables (ctx s')) ''resume_at'' = JNum (clock s + duration) \<and>
            clock s' = clock s))"
proof -
  have "lookup (variables (ctx (saveContext (set_variable ''resume_at'' v s)))) ''resume_at'' = v" for v
    using lookup_set_property [of "''resume_at''" v "variables (ctx s)"]
    by (simp add: saveContext_def set_variable_def emit_def)
  then show ?thesis
    by (simp add: executeDelay_def Let_def timeout_def emit_def)
      (simp add: saveContext_def set_variable_def emit_def)
qed


text \<open>At the threshold and just above it, from time 5000.\<close>

theorem executeDelay_threshold_witness:
  "(\<exists>s'. executeDelay 30000 (start_engine example_at_delay 5000) = (s', Returned True) \<and>
         journal s' = [Timeout 30000] \<and> saved s' = Some example_at_delay \<and>
         ctx s' = example_at_delay \<and> 35000 \<le> clock s') \<and>
   (\<exists>s'. executeDelay 30001 (start_engine example_at_delay 5000) = (s', Returned False) \<and>
         journal s' = [SaveContext (ctx s')] \<and> saved s' = Some (ctx s') \<and>
         lookup (variables (ctx s')) ''resume_at'' = JNum 35001 \<and> clock s' = 5000)"
  using executeDelay_threshold [of 30000 "start_engine example_at_delay 5000"]
    executeDelay_threshold [of 30001 "start_engine example_at_delay 5000"]
  by (simp add: start_engine_def)


section \<open>The flow engine: the reply to a question\<close>

text \<open>
  The invalid reply: \<open>handleUserResponse\<close> sends the question again after the words
  \<open>Invalid response.\<close>, and \<open>executeNodes\<close> then executes the question node, which sends
  the question once more; the context is left as it was, waiting on the same node.
\<close>

lemma execute_invalid_reply_stays:
  assumes node: "findNodeById b (Some q) = Some n"
    and kind: "node_kind n = AskQuestion question variable_name validation"
    and current: "current_node_id (ctx s) = Some q"
    and waiting: "waiting_for (ctx s) = Some q"
    and q: "q \<noteq> []"
    and invalid: "\<not> validateResponse reply validation"
    and sent: "send_succeeds orc (whatsapp_calls s)" "send_succeeds orc (Suc (whatsapp_calls s))"
  shows "\<exists>s'. execute orc b (Some reply) s = (s', Returned ()) \<and>
           ctx s' = ctx s \<and>
           journal s' = journal s @
             [WhatsAppText (''Invalid response. '' @ question),
              Executing q ''ask_question'',
              WhatsAppText (interpolateVariables question (object_entries (variables (ctx s)))),
              LogMessage ''outgoing''
                (interpolateVariables question (object_entries (variables (ctx s)))) ''text'',
              SaveContext (ctx s), SaveContext (ctx s)]"
proof -
  have id: "node_id n = q"
    using node by (auto simp: findNodeById_def find_Some_iff)
  define s1 where "s1 =
     emit (WhatsAppText (''Invalid response. '' @ question)) (s\<lparr>whatsapp_calls := Suc (whatsapp_calls s)\<rparr>)"
  have response: "handleUserResponse orc b reply s = (s1, Returned ())"
    using node kind waiting invalid sent(1)
    by (simp add: handleUserResponse_def whatsapp_send_def s1_def)
  have s1: "ctx s1 = ctx s" "whatsapp_calls s1 = Suc (whatsapp_calls s)"
    by (simp_all add: s1_def emit_def)
  define prompt where "prompt = interpolateVariables question (object_entries (variables (ctx s)))"
  define s2 where "s2 = saveContext
     ((logMessage ''outgoing'' prompt ''text''
        (emit (WhatsAppText prompt)
          ((emit (Executing q ''ask_question'') s1)\<lparr>whatsapp_calls := Suc (whatsapp_calls s1)\<rparr>)))
      \<lparr>ctx := (ctx s1)\<lparr>waiting_for := Some q\<rparr>\<rparr>)"
  have ask: "executeNode orc n s1 = (s2, Returned False)"
    using kind id sent(2) s1
    by (simp add: executeNode_def executeAskQuestion_def whatsapp_send_def Let_def node_type_def
        s2_def prompt_def emit_def logMessage_def)
  have loop: "executeNodes_loop orc b (Some n) 0 s1 = (s2, Returned ())"
    by (subst executeNodes_loop.simps) (simp add: ask maxIterations_def)
  have nodes: "executeNodes orc b s1 = (saveContext s2, Returned ())"
    using node current by (simp add: executeNodes_def s1(1) loop)
  have run: "execute orc b (Some reply) s = (saveContext s2, Returned ())"
    using current waiting q
    by (simp add: execute_def execute_body_def Let_def falsy_string_def response nodes)
  have same: "(ctx s)\<lparr>waiting_for := Some q\<rparr> = ctx s"
    using waiting by simp
  have c: "ctx (saveContext s2) = ctx s"
    by (simp add: s2_def saveContext_def emit_def logMessage_def s1(1) same)
  have "journal (saveContext s2) = journal s @
             [WhatsAppText (''Invalid response. '' @ question),
              Executing q ''ask_question'',
              WhatsAppText prompt, LogMessage ''outgoing'' prompt ''text'',
              SaveContext (ctx s), SaveContext (ctx s)]"
    by (simp add: s2_def saveContext_def emit_def logMessage_def s1(1) same)
      (simp add: s1_def emit_def)
  then show ?thesis using run c by (simp add: prompt_def)
qed

text \<open>
  Claim C6, the valid reply. A run that is given a valid reply while the context waits
  on its current node, an \<open>ask_question\<close> node, stores the reply under the variable of
  the node and clears \<open>waiting_for\<close> in \<open>handleUserResponse\<close>; but \<open>executeNodes\<close> then
  starts from \<open>current_node_id\<close>, which is still the question node. So the question is
  sent again, \<open>waiting_for\<close> is set to the node again, and the run ends there: the node
  after the question is not executed.
\<close>

theorem execute_valid_reply_asks_again:
  assumes node: "findNodeById b (Some q) = Some n"
    and kind: "node_kind n = AskQuestion question variable_name validation"
    and current: "current_node_id (ctx s) = Some q"
    and waiting: "waiting_for (ctx s) = Some q"
    and q: "q \<noteq> []"
    and valid: "validateResponse reply validation"
    and sent: "send_succeeds orc (whatsapp_calls s)"
  shows "\<exists>s'. execute orc b (Some reply) s = (s', Returned ()) \<and>
           lookup (variables (ctx s')) variable_name = js_text reply \<and>
           waiting_for (ctx s') = Some q \<and>
           current_node_id (ctx s') = Some q \<and>
           flow_history (ctx s') = flow_history (ctx s) \<and>
           journal s' = journal s @
             [Executing q ''ask_question'',
              WhatsAppText (interpolateVariables question (object_entries (variables (ctx s')))),
              LogMessage ''outgoing''
                (interpolateVariables question (object_entries (variables (ctx s')))) ''text'',
              SaveContext (ctx s'), SaveContext (ctx s')]"
proof -
  have id: "node_id n = q"
    using node by (auto simp: findNodeById_def find_Some_iff)
  define s1 where "s1 = set_variable variable_name (js_text reply) s"
  define s2 where "s2 = s1\<lparr>ctx := (ctx s1)\<lparr>waiting_for := None\<rparr>\<rparr>"
  have response: "handleUserResponse orc b reply s = (s2, Returned ())"
    using node kind waiting valid
    by (simp add: handleUserResponse_def s1_def s2_def Let_def)
  have s2: "current_node_id (ctx s2) = Some q" "whatsapp_calls s2 = whatsapp_calls s"
    "journal s2 = journal s" "flow_history (ctx s2) = flow_history (ctx s)"
    "variables (ctx s2) = set_property variable_name (js_text reply) (variables (ctx s))"
    using current by (simp_all add: s2_def s1_def set_variable_def)
  define prompt where "prompt = interpolateVariables question (object_entries (variables (ctx s2)))"
  define s3 where "s3 = saveContext
     ((logMessage ''outgoing'' prompt ''text''
        (emit (WhatsAppText prompt)
          ((emit (Executing q ''ask_question'') s2)\<lparr>whatsapp_calls := Suc (whatsapp_calls s2)\<rparr>)))
      \<lparr>ctx := (ctx s2)\<lparr>waiting_for := Some q\<rparr>\<rparr>)"
  have ask: "executeNode orc n s2 = (s3, Returned False)"
    using kind id sent s2(2)
    by (simp add: executeNode_def executeAskQuestion_def whatsapp_send_def Let_def node_type_def
        s3_def prompt_def emit_def logMessage_def)
  have loop: "executeNodes_loop orc b (Some n) 0 s2 = (s3, Returned ())"
    by (subst executeNodes_loop.simps) (simp add: ask maxIterations_def)
  have nodes: "executeNodes orc b s2 = (saveContext s3, Returned ())"
    using node by (simp add: executeNodes_def s2(1) loop)
  have run: "execute orc b (Some reply) s = (saveContext s3, Returned ())"
    using current waiting q
    by (simp add: execute_def execute_body_def Let_def falsy_string_def response nodes)
  have vars: "variables (ctx (saveContext s3)) = variables (ctx s2)"
    by (simp add: s3_def saveContext_def emit_def logMessage_def)
  have "lookup (variables (ctx (saveContext s3))) variable_name = js_text reply"
    unfolding vars s2(5) by (rule lookup_set_property)
  moreover have "waiting_for (ctx (saveContext s3)) = Some q"
    "current_node_id (ctx (saveContext s3)) = Some q"
    "flow_history (ctx (saveContext s3)) = flow_history (ctx s)"
    using s2(1,4) by (simp_all add: s3_def saveContext_def emit_def logMessage_def)
  moreover have "journal (saveContext s3) = journal s @
             [Executing q ''ask_question'',
              WhatsAppText (interpolateVariables question (object_entries (variables (ctx (saveContext s3))))),
              LogMessage ''outgoing''
                (interpolateVariables question (object_entries (variables (ctx (saveContext s3))))) ''text'',
              SaveContext (ctx (saveContext s3)), SaveContext (ctx (saveContext s3))]"
    unfolding vars using s2(3)
    by (simp add: s3_def saveContext_def emit_def logMessage_def prompt_def)
  ultimately show ?thesis using run by simp
qed


text \<open>
  The flow \<open>t \<rightarrow> q \<rightarrow> m \<rightarrow> e\<close>, waiting on the question \<open>q\<close>, with the reply \<open>Sam\<close>: the
  question is asked again and the message \<open>m\<close> is not sent.
\<close>

theorem execute_valid_reply_asks_again_witness:
  "\<exists>s'. execute all_sent example_bot (Some (Some ''Sam'')) (start_engine example_waiting 0) =
           (s', Returned ()) \<and>
        variables (ctx s') = [(''name'', JStr ''Sam'')] \<and>
        waiting_for (ctx s') = Some ''q'' \<and>
        current_node_id (ctx s') = Some ''q'' \<and>
        flow_history (ctx s') = [''t'', ''q''] \<and>
        journal s' =
          [Executing ''q'' ''ask_question'', WhatsAppText ''What is your name?'',
           LogMessage ''outgoing'' ''What is your name?'' ''text'',
           SaveContext (ctx s'), SaveContext (ctx s')]"
proof -
  define n where
    "n = \<lparr>node_id = ''q'', node_kind = AskQuestion ''What is your name?'' ''name'' (Some ''text'')\<rparr>"
  define s where "s = start_engine example_waiting 0"
  have node: "findNodeById example_bot (Some ''q'') = Some n"
    by (simp add: findNodeById_def example_bot_def n_def)
  have kind: "node_kind n = AskQuestion ''What is your name?'' ''name'' (Some ''text'')"
    by (simp add: n_def)
  have current: "current_node_id (ctx s) = Some ''q''"
    and waiting: "waiting_for (ctx s) = Some ''q''"
    by (simp_all add: s_def start_engine_def example_waiting_def)
  have valid: "validateResponse (Some ''Sam'') (Some ''text'')"
    by (simp add: validateResponse_def)
  have sent: "send_succeeds all_sent (whatsapp_calls s)"
    by (simp add: all_sent_def)
  obtain s' where run: "execute all_sent example_bot (Some (Some ''Sam'')) s = (s', Returned ())"
    and stored: "lookup (variables (ctx s')) ''name'' = js_text (Some ''Sam'')"
    and again: "waiting_for (ctx s') = Some ''q''" "current_node_id (ctx s') = Some ''q''"
    and history: "flow_history (ctx s') = flow_history (ctx s)"
    and events: "journal s' = journal s @
             [Executing ''q'' ''ask_question'',
              WhatsAppText (interpolateVariables ''What is your name?'' (object_entries (variables (ctx s')))),
              LogMessage ''outgoing''
                (interpolateVariables ''What is your name?'' (object_entries (variables (ctx s')))) ''text'',
              SaveContext (ctx s'), SaveContext (ctx s')]"
    using execute_valid_reply_asks_again [OF node kind current waiting _ valid sent] by auto
  have vars: "variables (ctx s') = [(''name'', JStr ''Sam'')]"
    using run
    by (simp add: flow_defs Let_def example_bot_def example_waiting_def all_sent_def s_def
        object_entries_def array_index_key_def repeat_key_def is_digit_def
        token_def or_empty_def key_pattern_def replaceAll.simps)
      auto
  have prompt: "interpolateVariables ''What is your name?'' (object_entries [(''name'', JStr ''Sam'')]) =
      ''What is your name?''"
    by (simp add: object_entries_def array_index_key_def repeat_key_def is_digit_def
        token_def or_empty_def key_pattern_def replaceAll.simps)
  show ?thesis
    using run again history events
    by (simp add: vars prompt s_def [symmetric])
      (simp add: s_def start_engine_def example_waiting_def)
qed

end
